theory Spec2Isabelle
  imports Complex_Main
begin

section \<open>Media handles and the cue scheduler (p5.MediaElement)\<close>

text \<open>
  Playback positions and rates are JavaScript numbers. They are modelled as reals: the
  code only compares them and tests them for truthiness (a number is truthy unless it is
  zero or NaN; NaN is not modelled). Callbacks and their payloads are opaque values of
  arbitrary types; invoking a callback is recorded in a trace, in the order of the calls.
  A callback is taken not to change the handle it is registered on while an update runs.
\<close>

text \<open>\<^verbatim>\<open>var Cue = function(callback, time, id, val)\<close>\<close>

record ('cb, 'v) Cue =
  callback :: 'cb
  time :: real
  cid :: nat
  val :: 'v

text \<open>
  The value of the host property \<^verbatim>\<open>elt.ontimeupdate\<close>: \<open>None\<close> is null, the
  scheduler's own bound handler is \<open>CueDispatch\<close>, any other function is \<open>UserHandler\<close>.
\<close>

datatype handler = CueDispatch | UserHandler

text \<open>The host node of a media handle: the properties of \<^verbatim>\<open>this.elt\<close> the code reads or writes.\<close>

record media_elt =
  currentTime :: real
  duration :: real
  readyState :: nat
  playbackRate :: real
  ontimeupdate :: "handler option"
  width :: nat
  height :: nat
  videoWidth :: nat
  videoHeight :: nat

text \<open>
  The handle itself. \<open>presetPlaybackRate = None\<close> is the absent (deleted) property;
  \<open>loadedmetadata\<close> is false also where the property is undefined.
\<close>

record ('cb, 'v) MediaElement =
  elt :: media_elt
  src :: string
  prevTime :: real
  cueIDCounter :: nat
  cues :: "('cb, 'v) Cue list"
  loadedmetadata :: bool
  presetPlaybackRate :: "real option"
  mwidth :: nat
  mheight :: nat

text \<open>
  The constructor \<^verbatim>\<open>p5.MediaElement = function(elt, pInst)\<close> on a host node: the
  watermark is 0, the counter is 0, there are no cues.
\<close>

definition newMediaElement :: "media_elt \<Rightarrow> string \<Rightarrow> ('cb, 'v) MediaElement" where
  "newMediaElement e s =
     \<lparr>elt = e, src = s, prevTime = 0, cueIDCounter = 0, cues = [],
      loadedmetadata = False, presetPlaybackRate = None, mwidth = 0, mheight = 0\<rparr>"

text \<open>\<^verbatim>\<open>p5.MediaElement.prototype.addCue = function(time, callback, val)\<close>: returns the id.\<close>

definition addCue :: "real \<Rightarrow> 'cb \<Rightarrow> 'v \<Rightarrow> ('cb, 'v) MediaElement \<Rightarrow> nat \<times> ('cb, 'v) MediaElement" where
  "addCue t cb v m =
     (let i = cueIDCounter m;
          m1 = m\<lparr>cueIDCounter := Suc i\<rparr>;
          cue = \<lparr>callback = cb, time = t, cid = i, val = v\<rparr>;
          m2 = m1\<lparr>cues := cues m1 @ [cue]\<rparr>;
          m3 = (if ontimeupdate (elt m2) = None
                then m2\<lparr>elt := (elt m2)\<lparr>ontimeupdate := Some CueDispatch\<rparr>\<rparr>
                else m2)
      in (i, m3))"

text \<open>\<^verbatim>\<open>this._cues.splice(i, 1)\<close>\<close>

definition splice1 :: "nat \<Rightarrow> 'a list \<Rightarrow> 'a list" where
  "splice1 i xs = take i xs @ drop (Suc i) xs"

text \<open>
  The loop of \<^verbatim>\<open>removeCue\<close>: the index advances also after a splice, and the
  bound is the current length, as in the source. (The id is also written to the console.)
\<close>

function removeCue_loop :: "nat \<Rightarrow> nat \<Rightarrow> ('cb, 'v) Cue list \<Rightarrow> ('cb, 'v) Cue list" where
  "removeCue_loop i k cs =
     (if i < length cs
      then (if cid (cs ! i) = k then removeCue_loop (Suc i) k (splice1 i cs)
            else removeCue_loop (Suc i) k cs)
      else cs)"
  by pat_completeness auto
termination
  by (relation "measure (\<lambda>(i, k, cs). length cs - i)") (auto simp: splice1_def)

declare removeCue_loop.simps [simp del]

definition removeCue :: "nat \<Rightarrow> ('cb, 'v) MediaElement \<Rightarrow> ('cb, 'v) MediaElement" where
  "removeCue k m =
     (let m1 = m\<lparr>cues := removeCue_loop 0 k (cues m)\<rparr>
      in if length (cues m1) = 0
         then m1\<lparr>elt := (elt m1)\<lparr>ontimeupdate := None\<rparr>\<rparr>
         else m1)"

definition clearCues :: "('cb, 'v) MediaElement \<Rightarrow> ('cb, 'v) MediaElement" where
  "clearCues m = (let m1 = m\<lparr>cues := []\<rparr> in m1\<lparr>elt := (elt m1)\<lparr>ontimeupdate := None\<rparr>\<rparr>)"

text \<open>
  The loop of \<^verbatim>\<open>_onTimeUpdate\<close>, from index \<open>i\<close>, appending each invoked
  callback with its payload to the trace.
\<close>

function onTimeUpdate_loop ::
  "nat \<Rightarrow> real \<Rightarrow> ('cb, 'v) MediaElement \<Rightarrow> ('cb \<times> 'v) list \<Rightarrow> ('cb \<times> 'v) list" where
  "onTimeUpdate_loop i playbackTime m tr =
     (if i < length (cues m)
      then (let callbackTime = time (cues m ! i);
                v = val (cues m ! i)
            in if prevTime m < callbackTime \<and> callbackTime \<le> playbackTime
               then onTimeUpdate_loop (Suc i) playbackTime m (tr @ [(callback (cues m ! i), v)])
               else onTimeUpdate_loop (Suc i) playbackTime m tr)
      else tr)"
  by pat_completeness auto
termination
  by (relation "measure (\<lambda>(i, p, m, tr). length (cues m) - i)") auto

declare onTimeUpdate_loop.simps [simp del]

text \<open>
  \<^verbatim>\<open>p5.MediaElement.prototype._onTimeUpdate\<close>: the playback time is read from the host
  (\<^verbatim>\<open>this.time()\<close> is \<^verbatim>\<open>this.elt.currentTime\<close>); the result is the trace of
  callback invocations and the updated handle.
\<close>

definition onTimeUpdate :: "('cb, 'v) MediaElement \<Rightarrow> ('cb \<times> 'v) list \<times> ('cb, 'v) MediaElement" where
  "onTimeUpdate m =
     (let playbackTime = currentTime (elt m);
          tr = onTimeUpdate_loop 0 playbackTime m []
      in (tr, m\<lparr>prevTime := playbackTime\<rparr>))"

text \<open>
  The host's time-update notification: the host has moved the playback position to \<open>t\<close>
  and calls the handler installed in \<^verbatim>\<open>elt.ontimeupdate\<close>, if it is the scheduler's.
\<close>

definition host_timeupdate :: "real \<Rightarrow> ('cb, 'v) MediaElement \<Rightarrow> ('cb \<times> 'v) list \<times> ('cb, 'v) MediaElement" where
  "host_timeupdate t m =
     (let m1 = m\<lparr>elt := (elt m)\<lparr>currentTime := t\<rparr>\<rparr>
      in if ontimeupdate (elt m1) = Some CueDispatch then onTimeUpdate m1 else ([], m1))"

text \<open>Sequences of scheduler calls and notifications on one handle.\<close>

datatype ('cb, 'v) cue_op = AddCue real 'cb 'v | RemoveCue nat | ClearCues | TimeUpdate real

fun apply_cue_op :: "('cb, 'v) cue_op \<Rightarrow> ('cb, 'v) MediaElement \<Rightarrow> ('cb, 'v) MediaElement" where
  "apply_cue_op (AddCue t cb v) m = snd (addCue t cb v m)"
| "apply_cue_op (RemoveCue k) m = removeCue k m"
| "apply_cue_op ClearCues m = clearCues m"
| "apply_cue_op (TimeUpdate t) m = snd (host_timeupdate t m)"

definition run_cue_ops :: "('cb, 'v) cue_op list \<Rightarrow> ('cb, 'v) MediaElement \<Rightarrow> ('cb, 'v) MediaElement" where
  "run_cue_ops ops m = foldl (\<lambda>m op. apply_cue_op op m) m ops"

text \<open>The scheduler is subscribed when the host property holds a handler.\<close>

definition subscribed :: "('cb, 'v) MediaElement \<Rightarrow> bool" where
  "subscribed m = (ontimeupdate (elt m) \<noteq> None)"

definition sched_inv :: "('cb, 'v) MediaElement \<Rightarrow> bool" where
  "sched_inv m = (subscribed m = (cues m \<noteq> []))"

text \<open>Cue ids are below the counter, and no id is used twice.\<close>

definition cues_wf :: "('cb, 'v) MediaElement \<Rightarrow> bool" where
  "cues_wf m = (distinct (map cid (cues m)) \<and> list_all (\<lambda>c. cid c < cueIDCounter m) (cues m))"

text \<open>A host node as \<^verbatim>\<open>document.createElement\<close> leaves it, and a handle with the three cues
  of the documentation's example.\<close>

definition idle_elt :: media_elt where
  "idle_elt = \<lparr>currentTime = 0, duration = 10, readyState = 4, playbackRate = 1,
     ontimeupdate = None, width = 0, height = 0, videoWidth = 640, videoHeight = 480\<rparr>"

definition three_cues :: "(string, nat) MediaElement" where
  "three_cues = run_cue_ops [AddCue 0.5 ''a'' 1, AddCue 1.0 ''b'' 2, AddCue 2.5 ''c'' 3]
     (newMediaElement idle_elt ''beat.mp3'')"

subsection \<open>Playback rate\<close>

text \<open>
  \<^verbatim>\<open>a || b\<close> on an optional number: the first operand if it is truthy (present and not
  zero), else the second.
\<close>

definition truthy_num :: "real option \<Rightarrow> bool" where
  "truthy_num a = (case a of None \<Rightarrow> False | Some x \<Rightarrow> x \<noteq> 0)"

text \<open>
  \<^verbatim>\<open>p5.MediaElement.prototype.speed = function(val)\<close>. The argument \<open>None\<close> is
  \<^verbatim>\<open>undefined\<close> (no argument); the first component of the result is the value
  returned, \<open>None\<close> being \<^verbatim>\<open>undefined\<close>.
\<close>

definition speed :: "real option \<Rightarrow> ('cb, 'v) MediaElement \<Rightarrow> real option \<times> ('cb, 'v) MediaElement" where
  "speed arg m =
     (case arg of
        None \<Rightarrow>
          (if truthy_num (presetPlaybackRate m) then (presetPlaybackRate m, m)
           else (Some (playbackRate (elt m)), m))
      | Some x \<Rightarrow>
          (if loadedmetadata m then (None, m\<lparr>elt := (elt m)\<lparr>playbackRate := x\<rparr>\<rparr>)
           else (None, m\<lparr>presetPlaybackRate := Some x\<rparr>)))"

text \<open>
  The listener that \<^verbatim>\<open>createMedia\<close> adds for the host's \<^verbatim>\<open>loadedmetadata\<close>
  notification, on the handle \<open>c\<close> it has created.
\<close>

definition createMedia_loadedmetadata :: "('cb, 'v) MediaElement \<Rightarrow> ('cb, 'v) MediaElement" where
  "createMedia_loadedmetadata c =
     (let c1 = c\<lparr>mwidth := videoWidth (elt c)\<rparr>;
          c2 = c1\<lparr>mheight := videoHeight (elt c1)\<rparr>;
          c3 = (if width (elt c2) = 0
                then c2\<lparr>elt := (elt c2)\<lparr>width := videoWidth (elt c2)\<rparr>\<rparr> else c2);
          c4 = (if height (elt c3) = 0
                then c3\<lparr>elt := (elt c3)\<lparr>height := videoHeight (elt c3)\<rparr>\<rparr> else c3);
          c5 = (if truthy_num (presetPlaybackRate c4)
                then (c4\<lparr>elt := (elt c4)\<lparr>playbackRate := the (presetPlaybackRate c4)\<rparr>\<rparr>)
                       \<lparr>presetPlaybackRate := None\<rparr>
                else c4)
      in c5\<lparr>loadedmetadata := True\<rparr>)"

text \<open>
  The listener that \<^verbatim>\<open>createCapture\<close> adds for the same notification, on the handle
  \<open>c\<close> it has created. (It also calls \<^verbatim>\<open>elt.play()\<close> and the caller's callback,
  which do not write the fields of the handle.) It does not look at the preset.
\<close>

definition createCapture_loadedmetadata :: "('cb, 'v) MediaElement \<Rightarrow> ('cb, 'v) MediaElement" where
  "createCapture_loadedmetadata c =
     (let c1 = (if width (elt c) \<noteq> 0
                then (c\<lparr>mwidth := width (elt c)\<rparr>)\<lparr>mheight := height (elt c)\<rparr>
                else (let c2 = (c\<lparr>elt := (elt c)\<lparr>width := videoWidth (elt c)\<rparr>\<rparr>)
                                 \<lparr>mwidth := videoWidth (elt c)\<rparr>
                      in (c2\<lparr>elt := (elt c2)\<lparr>height := videoHeight (elt c2)\<rparr>\<rparr>)
                           \<lparr>mheight := videoHeight (elt c2)\<rparr>))
      in c1\<lparr>loadedmetadata := True\<rparr>)"

text \<open>
  The three makers of a media handle, and the host's \<^verbatim>\<open>loadedmetadata\<close> notification
  on a handle: it runs the listener that the maker has added. \<^verbatim>\<open>createVideo\<close> and
  \<^verbatim>\<open>createAudio\<close> go through \<^verbatim>\<open>createMedia\<close>; \<^verbatim>\<open>_wrapElement\<close> calls the
  constructor only and adds no listener.
\<close>

datatype maker = CreateMedia | CreateCapture | WrapElement

fun host_loadedmetadata :: "maker \<Rightarrow> ('cb, 'v) MediaElement \<Rightarrow> ('cb, 'v) MediaElement" where
  "host_loadedmetadata CreateMedia c = createMedia_loadedmetadata c"
| "host_loadedmetadata CreateCapture c = createCapture_loadedmetadata c"
| "host_loadedmetadata WrapElement c = c"

subsection \<open>Starting playback\<close>

datatype js_error = TypeError

text \<open>
  What the host's \<^verbatim>\<open>elt.play()\<close> returns: nothing usable (\<^verbatim>\<open>promise && promise.catch\<close>
  is falsy), a promise that is fulfilled, or a promise rejected with an error of the given name.
\<close>

datatype play_promise = NoPromise | Resolves | Rejects string

datatype host_call = HostLoad | HostPlay

datatype report = FriendlyAutoplayError string | ConsoleError string

text \<open>
  The rejection handler given to \<^verbatim>\<open>promise.catch\<close>. It is an ordinary function
  expression, so its \<^verbatim>\<open>this\<close> is whatever the caller binds; the first argument is that
  binding (\<open>None\<close> is \<^verbatim>\<open>undefined\<close>), the second the name of the error.
  \<^verbatim>\<open>this.src\<close> is read only in the branch of the permission error, and reading a property
  of \<^verbatim>\<open>undefined\<close> raises a TypeError.
\<close>

definition play_catch :: "('cb, 'v) MediaElement option \<Rightarrow> string \<Rightarrow> js_error + report" where
  "play_catch this e_name =
     (if e_name = ''NotAllowedError''
      then (case this of
              None \<Rightarrow> Inl TypeError
            | Some h \<Rightarrow> Inr (FriendlyAutoplayError (src h)))
      else Inr (ConsoleError e_name))"

text \<open>
  \<^verbatim>\<open>p5.MediaElement.prototype.play\<close>. The result is the handle (which is also the
  value returned), the host calls made, in order, and the outcome of the rejection handler
  when the promise is rejected. The file is an ECMAScript module, hence strict code, and a
  promise calls its handlers as plain functions: the handler runs with \<^verbatim>\<open>this\<close>
  undefined. Whatever the handler raises stays inside the promise; nothing reaches the
  caller of \<open>play\<close>.
\<close>

definition play ::
  "play_promise \<Rightarrow> ('cb, 'v) MediaElement \<Rightarrow>
     ('cb, 'v) MediaElement \<times> host_call list \<times> (js_error + report) option" where
  "play promise m =
     (let m1 = (if currentTime (elt m) = duration (elt m)
                then m\<lparr>elt := (elt m)\<lparr>currentTime := 0\<rparr>\<rparr> else m);
          calls = (if readyState (elt m1) > 1 then [HostPlay] else [HostLoad, HostPlay]);
          reaction = (case promise of
                        Rejects e_name \<Rightarrow> Some (play_catch (None :: ('cb, 'v) MediaElement option) e_name)
                      | _ \<Rightarrow> None)
      in (m1, calls, reaction))"

text \<open>
  A handle made by \<^verbatim>\<open>createVideo\<close> before its metadata has arrived, one made by
  \<^verbatim>\<open>createCapture\<close>, and one made by \<^verbatim>\<open>_wrapElement\<close> for a video node of the page.
\<close>

definition fresh_video :: "(string, nat) MediaElement" where
  "fresh_video = newMediaElement idle_elt ''clip.mp4''"

definition fresh_capture :: "(string, nat) MediaElement" where
  "fresh_capture = newMediaElement idle_elt []"

definition wrapped_video :: "(string, nat) MediaElement" where
  "wrapped_video = newMediaElement idle_elt ''page.mp4''"

section \<open>Host nodes and the dispatcher (p5.prototype._wrapElement)\<close>

text \<open>
  A host node with the properties the code reads or the host uses: its tag name (which is
  also its node name), the \<^verbatim>\<open>type\<close> of an input, its \<^verbatim>\<open>name\<close> attribute (empty
  when absent), its \<^verbatim>\<open>value\<close>, its \<^verbatim>\<open>checked\<close> flag and its child elements.
\<close>

datatype dom_node =
  Node (tagName: string) (ntype: string) (nname: string) (nvalue: string) (checked: bool)
    (children: "dom_node list")

text \<open>
  The handle classes, and the bundles of methods that the code attaches to a handle:
  \<^verbatim>\<open>checked\<close> in the dispatcher itself, \<^verbatim>\<open>option/selected/disable\<close> in
  \<^verbatim>\<open>createSelect\<close>, \<^verbatim>\<open>option/selected/value\<close> in \<^verbatim>\<open>createRadio\<close>.
\<close>

datatype handle_class = P5Element | P5MediaElement

datatype capability = Checkbox | Select | RadioGroup

record wrapped =
  welt :: dom_node
  wclass :: handle_class
  wcaps :: "capability list"

text \<open>The first argument of \<^verbatim>\<open>createSelect\<close> and \<^verbatim>\<open>createRadio\<close>.\<close>

datatype js_arg = ArgUndefined | ArgBool bool | ArgString string | ArgHandle wrapped

text \<open>\<^verbatim>\<open>new p5.Element(elt, this)\<close> and \<^verbatim>\<open>new p5.MediaElement(elt, this)\<close>\<close>

definition new_Element :: "dom_node \<Rightarrow> wrapped" where
  "new_Element e = \<lparr>welt = e, wclass = P5Element, wcaps = []\<rparr>"

definition new_MediaElement :: "dom_node \<Rightarrow> wrapped" where
  "new_MediaElement e = \<lparr>welt = e, wclass = P5MediaElement, wcaps = []\<rparr>"

text \<open>
  \<^verbatim>\<open>p5.prototype.createSelect\<close>: a handle whose node is a select control is reused; in
  every other case a new select control is made (a multiple one for the argument
  \<^verbatim>\<open>true\<close>) and wrapped by \<^verbatim>\<open>addElement\<close>, whose registration of the handle
  is outside this part of the model. The methods are attached in both cases.
\<close>

definition new_select_node :: "bool \<Rightarrow> dom_node" where
  "new_select_node multiple =
     Node ''SELECT'' (if multiple then ''select-multiple'' else ''select-one'') [] [] False []"

definition createSelect :: "js_arg \<Rightarrow> wrapped" where
  "createSelect a =
     (let self =
        (case a of
           ArgHandle h \<Rightarrow>
             (if tagName (welt h) = ''SELECT'' then h else new_Element (new_select_node False))
         | ArgBool b \<Rightarrow> new_Element (new_select_node b)
         | _ \<Rightarrow> new_Element (new_select_node False))
      in self\<lparr>wcaps := wcaps self @ [Select]\<rparr>)"

text \<open>
  \<^verbatim>\<open>p5.prototype.createRadio\<close>: an argument that is an object is taken as the handle
  of an existing container; otherwise a new \<^verbatim>\<open>div\<close> is made. (The count of the radio
  inputs of the page, from which the code names the group, plays no part here.)
\<close>

definition createRadio :: "js_arg \<Rightarrow> wrapped" where
  "createRadio existing_radios =
     (let self =
        (case existing_radios of
           ArgHandle h \<Rightarrow> h
         | _ \<Rightarrow> new_Element (Node ''DIV'' [] [] [] False []))
      in self\<lparr>wcaps := wcaps self @ [RadioGroup]\<rparr>)"

text \<open>\<^verbatim>\<open>p5.prototype._wrapElement = function(elt)\<close>\<close>

definition wrapElement :: "dom_node \<Rightarrow> wrapped" where
  "wrapElement e =
     (let ch = children e in
      if tagName e = ''INPUT'' \<and> ntype e = ''checkbox''
      then (let converted = new_Element e in converted\<lparr>wcaps := wcaps converted @ [Checkbox]\<rparr>)
      else if tagName e = ''VIDEO'' \<or> tagName e = ''AUDIO''
      then new_MediaElement e
      else if tagName e = ''SELECT''
      then createSelect (ArgHandle (new_Element e))
      else if length ch > 0 \<and> list_all (\<lambda>c. tagName c = ''INPUT'' \<or> tagName c = ''LABEL'') ch
      then createRadio (ArgHandle (new_Element e))
      else new_Element e)"

text \<open>The conditions of the dispatcher, in its order.\<close>

definition is_checkbox :: "dom_node \<Rightarrow> bool" where
  "is_checkbox e = (tagName e = ''INPUT'' \<and> ntype e = ''checkbox'')"

definition is_media :: "dom_node \<Rightarrow> bool" where
  "is_media e = (tagName e = ''VIDEO'' \<or> tagName e = ''AUDIO'')"

definition is_select :: "dom_node \<Rightarrow> bool" where
  "is_select e = (tagName e = ''SELECT'')"

definition is_radio_container :: "dom_node \<Rightarrow> bool" where
  "is_radio_container e =
     (children e \<noteq> [] \<and> list_all (\<lambda>c. tagName c = ''INPUT'' \<or> tagName c = ''LABEL'') (children e))"

section \<open>The select control (p5.prototype.createSelect, self.option)\<close>

text \<open>
  The JavaScript values an argument can be here: \<^verbatim>\<open>undefined\<close>, a boolean, a string, or
  a number that is an integer of magnitude below \<open>2^53\<close>; these are the integers that a
  JavaScript number holds exactly and prints in plain decimal digits. Other numbers are not
  modelled. \<open>to_string\<close> is the conversion the host applies when such a value is assigned
  to a string property (\<^verbatim>\<open>value\<close>, \<^verbatim>\<open>innerHTML\<close>); \<open>truthy\<close> is the test of
  \<^verbatim>\<open>if (value)\<close>.
\<close>

typedef safe_int = "{i :: int. - 9007199254740992 < i \<and> i < 9007199254740992}"
  by (rule exI [of _ 0]) simp

datatype jsval = JUndefined | JBool bool | JNum safe_int | JStr string

fun digits :: "nat \<Rightarrow> string" where
  "digits n =
     (if n < 10 then [''0123456789'' ! n]
      else digits (n div 10) @ [''0123456789'' ! (n mod 10)])"

declare digits.simps [simp del]

fun to_string :: "jsval \<Rightarrow> string" where
  "to_string JUndefined = ''undefined''"
| "to_string (JBool b) = (if b then ''true'' else ''false'')"
| "to_string (JNum n) =
     (if Rep_safe_int n < 0 then CHR ''-'' # digits (nat (- Rep_safe_int n))
      else digits (nat (Rep_safe_int n)))"
| "to_string (JStr s) = s"

fun truthy :: "jsval \<Rightarrow> bool" where
  "truthy JUndefined = False"
| "truthy (JBool b) = b"
| "truthy (JNum n) = (Rep_safe_int n \<noteq> 0)"
| "truthy (JStr s) = (s \<noteq> [])"

text \<open>An optional argument: \<open>None\<close> when the call does not supply it, and then its value is
  \<^verbatim>\<open>undefined\<close>.\<close>

definition arg_val :: "jsval option \<Rightarrow> jsval" where
  "arg_val a = (case a of None \<Rightarrow> JUndefined | Some x \<Rightarrow> x)"

text \<open>
  An option node of the select control: \<open>oid\<close> is the identity of the node object,
  \<open>innerHTML\<close> is what reading that property yields, \<open>ovalue\<close> what reading
  \<^verbatim>\<open>value\<close> yields. The host parses a string assigned to \<^verbatim>\<open>innerHTML\<close> and
  serializes the content when the property is read, so what is read can differ from what
  was assigned (an ampersand comes back as \<^verbatim>\<open>&amp;\<close>). That round trip is the
  parameter \<open>ser\<close> of the functions below: reading \<^verbatim>\<open>innerHTML\<close> after assigning \<open>x\<close>
  yields \<open>ser x\<close>. A value is stored as assigned.
\<close>

record option_node =
  oid :: nat
  innerHTML :: string
  ovalue :: string

text \<open>
  The select control: its options in document order (\<^verbatim>\<open>this.elt[i]\<close>,
  \<^verbatim>\<open>this.elt.length\<close>), the identity that \<^verbatim>\<open>document.createElement\<close> gives to the
  next node, and the option nodes that \<open>option\<close> has pushed to \<^verbatim>\<open>_pInst._elements\<close>.
\<close>

record select_state =
  options :: "option_node list"
  next_node :: nat
  pushed :: "nat list"

text \<open>The scan for an option with the label \<open>name\<close>, which stops at the first one.\<close>

function option_scan :: "nat \<Rightarrow> string \<Rightarrow> option_node list \<Rightarrow> nat option" where
  "option_scan i name opts =
     (if i < length opts
      then (if innerHTML (opts ! i) = name then Some i else option_scan (Suc i) name opts)
      else None)"
  by pat_completeness auto
termination
  by (relation "measure (\<lambda>(i, name, opts). length opts - i)") auto

declare option_scan.simps [simp del]

text \<open>
  \<^verbatim>\<open>self.option = function(name, value)\<close>; the second argument is \<open>None\<close> when
  \<^verbatim>\<open>arguments.length\<close> is 1.
\<close>

definition select_option ::
  "(string \<Rightarrow> string) \<Rightarrow> string \<Rightarrow> jsval option \<Rightarrow> select_state \<Rightarrow> select_state" where
  "select_option ser name v s =
     (case option_scan 0 name (options s) of
        Some index \<Rightarrow>
          (if arg_val v = JBool False
           then s\<lparr>options := splice1 index (options s)\<rparr>
           else (let opt = options s ! index in
                 if innerHTML opt = ovalue opt
                 then s\<lparr>options := (options s)
                        [index := opt\<lparr>innerHTML := ser (to_string (arg_val v)),
                                      ovalue := to_string (arg_val v)\<rparr>]\<rparr>
                 else s\<lparr>options := (options s)[index := opt\<lparr>ovalue := to_string (arg_val v)\<rparr>]\<rparr>))
      | None \<Rightarrow>
          (let opt = \<lparr>oid = next_node s, innerHTML = ser name,
                      ovalue = (case v of Some x \<Rightarrow> to_string x | None \<Rightarrow> name)\<rparr>
           in s\<lparr>options := options s @ [opt], next_node := Suc (next_node s),
                pushed := pushed s @ [oid opt]\<rparr>))"

text \<open>A sequence of \<open>option\<close> calls, and the new, empty control.\<close>

definition run_options ::
  "(string \<Rightarrow> string) \<Rightarrow> (string \<times> jsval option) list \<Rightarrow> select_state \<Rightarrow> select_state" where
  "run_options ser calls s = foldl (\<lambda>s (name, v). select_option ser name v s) s calls"

definition new_select :: select_state where
  "new_select = \<lparr>options = [], next_node = 0, pushed = []\<rparr>"

text \<open>Node identities in use are below the next one, and no node is listed twice.\<close>

definition select_wf :: "select_state \<Rightarrow> bool" where
  "select_wf s = (list_all (\<lambda>opt. oid opt < next_node s) (options s) \<and> distinct (map oid (options s)))"

text \<open>
  A round trip for the examples: every ampersand comes back as \<^verbatim>\<open>&amp;\<close>, every other
  character as it is. A browser does the same on the names used below, which have no
  markup and no character reference. Then the control after \<^verbatim>\<open>option('a', 'x')\<close> on a
  new one.
\<close>

definition escape_amp :: "string \<Rightarrow> string" where
  "escape_amp x = concat (map (\<lambda>c. if c = CHR ''&'' then ''&amp;'' else [c]) x)"

definition one_option :: select_state where
  "one_option = run_options escape_amp [(''a'', Some (JStr ''x''))] new_select"

section \<open>The radio group (p5.prototype.createRadio, self.selected, self.value)\<close>

fun set_checked :: "bool \<Rightarrow> dom_node \<Rightarrow> dom_node" where
  "set_checked b (Node t ty n v c ch) = Node t ty n v b ch"

fun set_children :: "dom_node list \<Rightarrow> dom_node \<Rightarrow> dom_node" where
  "set_children ch' (Node t ty n v c ch) = Node t ty n v c ch'"

text \<open>
  What the host does when \<^verbatim>\<open>checked = true\<close> is assigned to an input. The input
  becomes checked. If it is a radio button with a name that is not empty, every other
  radio button of that name becomes unchecked: \<open>uncheck_group\<close> clears the flag of the radio
  buttons named \<open>g\<close> in a node and below it, and \<open>host_check j ch\<close> is the assignment to the
  child at position \<open>j\<close> of a container whose child elements are \<open>ch\<close>. Radio buttons of
  the same name outside the container are outside the state modelled, and so are forms
  (all radio buttons of one name count as one group).
\<close>

fun uncheck_group :: "string \<Rightarrow> dom_node \<Rightarrow> dom_node" where
  "uncheck_group g (Node t ty n v c ch) =
     Node t ty n v (if t = ''INPUT'' \<and> ty = ''radio'' \<and> n = g then False else c)
       (map (uncheck_group g) ch)"

definition host_check :: "nat \<Rightarrow> dom_node list \<Rightarrow> dom_node list" where
  "host_check j ch =
     (let x = ch ! j in
      if tagName x = ''INPUT'' \<and> ntype x = ''radio'' \<and> nname x \<noteq> []
      then (map (uncheck_group (nname x)) ch)[j := set_checked True (uncheck_group (nname x) x)]
      else ch[j := set_checked True x])"

text \<open>
  \<^verbatim>\<open>self._getInputChildrenArray\<close>: the array holds references to child nodes, so it is
  modelled as the positions, in \<^verbatim>\<open>this.elt.children\<close>, of the children whose tag is
  \<^verbatim>\<open>INPUT\<close>; writing to an entry of the array writes to that child.
\<close>

definition getInputChildrenArray :: "dom_node \<Rightarrow> nat list" where
  "getInputChildrenArray e =
     filter (\<lambda>j. tagName (children e ! j) = ''INPUT'') [0..<length (children e)]"

text \<open>\<^verbatim>\<open>inputChildren[i].value === value\<close>: a string is strictly equal only to the same string.\<close>

definition strict_eq :: "string \<Rightarrow> jsval \<Rightarrow> bool" where
  "strict_eq s v = (v = JStr s)"

text \<open>
  The loop of the setter branch, over the array from index \<open>i\<close>; \<open>ch\<close> is the current
  state of the container's children.
\<close>

function radio_check_loop :: "nat \<Rightarrow> jsval \<Rightarrow> nat list \<Rightarrow> dom_node list \<Rightarrow> dom_node list" where
  "radio_check_loop i v inputChildren ch =
     (if i < length inputChildren
      then (if strict_eq (nvalue (ch ! (inputChildren ! i))) v
            then radio_check_loop (Suc i) v inputChildren (host_check (inputChildren ! i) ch)
            else radio_check_loop (Suc i) v inputChildren ch)
      else ch)"
  by pat_completeness auto
termination
  by (relation "measure (\<lambda>(i, v, inputChildren, ch). length inputChildren - i)") auto

declare radio_check_loop.simps [simp del]

text \<open>The loop of the getter branch: the value of the first checked entry, if the loop returns.\<close>

function radio_find_loop :: "nat \<Rightarrow> nat list \<Rightarrow> dom_node list \<Rightarrow> string option" where
  "radio_find_loop i inputChildren ch =
     (if i < length inputChildren
      then (if checked (ch ! (inputChildren ! i)) = True
            then Some (nvalue (ch ! (inputChildren ! i)))
            else radio_find_loop (Suc i) inputChildren ch)
      else None)"
  by pat_completeness auto
termination
  by (relation "measure (\<lambda>(i, inputChildren, ch). length inputChildren - i)") auto

declare radio_find_loop.simps [simp del]

text \<open>What a method returns: the handle (\<^verbatim>\<open>this\<close>), a string, or \<^verbatim>\<open>undefined\<close>.\<close>

datatype radio_ret = RetThis | RetValue string | RetUndefined

text \<open>
  \<^verbatim>\<open>self.selected = function(value)\<close> and \<^verbatim>\<open>self.value = function(value)\<close> on the
  container node; the argument is \<open>None\<close> when the call has none. Both test
  \<^verbatim>\<open>if (value)\<close>.
\<close>

definition radio_selected :: "jsval option \<Rightarrow> dom_node \<Rightarrow> radio_ret \<times> dom_node" where
  "radio_selected a e =
     (let inputChildren = getInputChildrenArray e in
      if truthy (arg_val a)
      then (RetThis, set_children (radio_check_loop 0 (arg_val a) inputChildren (children e)) e)
      else (case radio_find_loop 0 inputChildren (children e) of
              Some s \<Rightarrow> (RetValue s, e)
            | None \<Rightarrow> (RetUndefined, e)))"

definition radio_value :: "jsval option \<Rightarrow> dom_node \<Rightarrow> radio_ret \<times> dom_node" where
  "radio_value a e =
     (let inputChildren = getInputChildrenArray e in
      if truthy (arg_val a)
      then (RetThis, set_children (radio_check_loop 0 (arg_val a) inputChildren (children e)) e)
      else (case radio_find_loop 0 inputChildren (children e) of
              Some s \<Rightarrow> (RetValue s, e)
            | None \<Rightarrow> (RetValue [], e)))"

text \<open>
  The setter in other words: the positions of the input children whose value is strictly
  equal to \<open>v\<close>, in document order, and the host's assignment applied to each in turn.
  The getter in other words: the first child that is an input and is checked.
\<close>

definition matching_inputs :: "jsval \<Rightarrow> dom_node list \<Rightarrow> nat list" where
  "matching_inputs v ch =
     filter (\<lambda>j. tagName (ch ! j) = ''INPUT'' \<and> strict_eq (nvalue (ch ! j)) v) [0..<length ch]"

definition check_in_order :: "jsval \<Rightarrow> dom_node list \<Rightarrow> dom_node list" where
  "check_in_order v ch = foldl (\<lambda>c j. host_check j c) ch (matching_inputs v ch)"

definition first_checked_input :: "dom_node list \<Rightarrow> dom_node option" where
  "first_checked_input ch = find (\<lambda>c. tagName c = ''INPUT'' \<and> checked c) ch"

text \<open>
  \<^verbatim>\<open>self.option = function(name, value)\<close> of the radio group, on the container node:
  a new, unchecked radio button is appended, whose name is the group name \<open>g\<close> that
  \<^verbatim>\<open>createRadio\<close> has computed (\<^verbatim>\<open>'defaultradio' + count\<close>) and whose value is
  \<open>value\<close> if that is truthy and \<open>name\<close> otherwise; a label follows it when \<open>name\<close> is
  not empty. (The method returns the new input; its \<^verbatim>\<open>id\<close> and the label's text are not
  part of the model.)
\<close>

definition radio_option :: "string \<Rightarrow> string \<Rightarrow> jsval option \<Rightarrow> dom_node \<Rightarrow> dom_node" where
  "radio_option g name v e =
     (let opt = Node ''INPUT'' ''radio'' g
                  (if truthy (arg_val v) then to_string (arg_val v) else name) False [];
          ch1 = children e @ [opt];
          ch2 = (if name \<noteq> [] then ch1 @ [Node ''LABEL'' [] [] [] False []] else ch1)
      in set_children ch2 e)"

text \<open>
  The children of a container as \<open>option\<close> fills it: no child has child elements, and
  every input is a radio button of the one name \<open>g\<close>, which is not empty. In such a
  group \<open>check_only l\<close> is the state where, of the inputs, exactly the one at position \<open>l\<close>
  is checked.
\<close>

definition option_group :: "string \<Rightarrow> dom_node list \<Rightarrow> bool" where
  "option_group g ch =
     (g \<noteq> [] \<and>
      list_all (\<lambda>c. children c = [] \<and>
                  (if tagName c = ''INPUT'' then ntype c = ''radio'' \<and> nname c = g else True)) ch)"

definition check_only :: "nat \<Rightarrow> dom_node list \<Rightarrow> dom_node list" where
  "check_only l ch =
     map (\<lambda>k. if tagName (ch ! k) = ''INPUT'' then set_checked (k = l) (ch ! k) else ch ! k)
       [0..<length ch]"

text \<open>
  A group as \<^verbatim>\<open>option('1'); option('2')\<close> builds it (each input followed by its label),
  a group whose only input has the empty string as its value, as \<^verbatim>\<open>option('')\<close>
  builds it, and a group with two inputs of the same value, as
  \<^verbatim>\<open>option('a', 'x'); option('b', 'x')\<close> builds it.
\<close>

definition two_radios :: dom_node where
  "two_radios = Node ''DIV'' [] [] [] False
     [Node ''INPUT'' ''radio'' ''defaultradio0'' ''1'' False [], Node ''LABEL'' [] [] [] False [],
      Node ''INPUT'' ''radio'' ''defaultradio0'' ''2'' False [], Node ''LABEL'' [] [] [] False []]"

definition empty_value_radio :: dom_node where
  "empty_value_radio = Node ''DIV'' [] [] [] False [Node ''INPUT'' ''radio'' ''defaultradio0'' [] False []]"

definition same_value_radios :: dom_node where
  "same_value_radios = Node ''DIV'' [] [] [] False
     [Node ''INPUT'' ''radio'' ''defaultradio0'' ''x'' False [], Node ''LABEL'' [] [] [] False [],
      Node ''INPUT'' ''radio'' ''defaultradio0'' ''x'' False [], Node ''LABEL'' [] [] [] False []]"

text \<open>The first group with its second input checked and no other.\<close>

definition two_radios_second :: dom_node where
  "two_radios_second = Node ''DIV'' [] [] [] False
     [Node ''INPUT'' ''radio'' ''defaultradio0'' ''1'' False [], Node ''LABEL'' [] [] [] False [],
      Node ''INPUT'' ''radio'' ''defaultradio0'' ''2'' True [], Node ''LABEL'' [] [] [] False []]"

section \<open>The registry of handles (p5.Element.prototype.remove, p5.prototype.removeElements)\<close>

text \<open>
  The host node of a registered handle, with what \<open>remove\<close> and \<open>removeElements\<close> read
  or change: whether it is a canvas, whether it has a parent node, the listeners registered
  on it (event type and function; a host node holds a listener at most once), and its
  \<^verbatim>\<open>srcObject\<close>: \<open>None\<close> is null, the value of a media node that plays from a URL,
  \<open>Some ts\<close> is a stream whose tracks are live (\<open>True\<close>) or stopped.
\<close>

record host_elt =
  canvas :: bool
  attached :: bool
  listeners :: "(string \<times> nat) list"
  srcObject :: "bool list option"

text \<open>
  A handle: its node, whether it is a \<^verbatim>\<open>p5.MediaElement\<close>, and its table
  \<^verbatim>\<open>_events\<close> of event type and bound function.
\<close>

record p5_handle =
  helt :: host_elt
  media :: bool
  events :: "(string \<times> nat) list"

text \<open>
  The entries of \<^verbatim>\<open>_elements\<close>: handles, pushed by \<^verbatim>\<open>addElement\<close>, and the bare
  option nodes that the select control's \<open>option\<close> pushes. Handles are objects with
  identity, so the registry lists their addresses and the page holds the objects.
\<close>

datatype entry = Handle nat | OptionNode nat

record page =
  handles :: "nat \<Rightarrow> p5_handle"
  option_attached :: "nat \<Rightarrow> bool"
  elements :: "entry list"

text \<open>\<^verbatim>\<open>Array.prototype.indexOf\<close>: the first index, \<open>None\<close> for -1.\<close>

fun indexOf :: "'a \<Rightarrow> 'a list \<Rightarrow> nat option" where
  "indexOf x [] = None"
| "indexOf x (y # ys) = (if y = x then Some 0 else map_option Suc (indexOf x ys))"

text \<open>
  \<^verbatim>\<open>this.elt.srcObject.getTracks()\<close> and stopping each track; calling a method of null
  raises a TypeError.
\<close>

definition stop_tracks :: "p5_handle \<Rightarrow> js_error + p5_handle" where
  "stop_tracks h =
     (case srcObject (helt h) of
        None \<Rightarrow> Inl TypeError
      | Some tracks \<Rightarrow> Inr (h\<lparr>helt := (helt h)\<lparr>srcObject := Some (map (\<lambda>t. False) tracks)\<rparr>\<rparr>))"

text \<open>The loop over \<^verbatim>\<open>this._events\<close>, calling \<^verbatim>\<open>removeEventListener\<close> for each entry.\<close>

definition deregister_events :: "(string \<times> nat) list \<Rightarrow> (string \<times> nat) list \<Rightarrow> (string \<times> nat) list" where
  "deregister_events evs ls = fold (\<lambda>ev l. removeAll ev l) evs ls"

text \<open>\<^verbatim>\<open>p5.Element.prototype.remove\<close>, called on the handle at address \<open>hid\<close>.\<close>

definition remove :: "nat \<Rightarrow> page \<Rightarrow> js_error + page" where
  "remove hid s =
     (let h = handles s hid in
      case (if media h then stop_tracks h else Inr h) of
        Inl e \<Rightarrow> Inl e
      | Inr h1 \<Rightarrow>
          (let els = (case indexOf (Handle hid) (elements s) of
                        Some index \<Rightarrow> splice1 index (elements s)
                      | None \<Rightarrow> elements s);
               h2 = h1\<lparr>helt := (helt h1)\<lparr>listeners := deregister_events (events h1) (listeners (helt h1))\<rparr>\<rparr>;
               h3 = (if attached (helt h2) then h2\<lparr>helt := (helt h2)\<lparr>attached := False\<rparr>\<rparr> else h2)
           in Inr (s\<lparr>handles := (handles s)(hid := h3), elements := els\<rparr>)))"

text \<open>
  The loop of \<^verbatim>\<open>p5.prototype.removeElements\<close>: the index advances by one in every
  round and the bound is the current length of the registry. An entry that is a bare
  option node has no \<^verbatim>\<open>elt\<close>, so it is not a canvas, and its \<open>remove\<close> is the host's:
  the node leaves its parent and the registry is not touched. An exception ends the loop.
\<close>

function removeElements_loop :: "nat \<Rightarrow> page \<Rightarrow> js_error + page" where
  "removeElements_loop i s =
     (if i < length (elements s)
      then (case elements s ! i of
              Handle hid \<Rightarrow>
                (if \<not> canvas (helt (handles s hid))
                 then (case remove hid s of
                         Inl e \<Rightarrow> Inl e
                       | Inr s' \<Rightarrow> removeElements_loop (Suc i) s')
                 else removeElements_loop (Suc i) s)
            | OptionNode n \<Rightarrow>
                removeElements_loop (Suc i) (s\<lparr>option_attached := (option_attached s)(n := False)\<rparr>))
      else Inr s)"
  by pat_completeness auto
termination
  apply (relation "measure (\<lambda>(i, s). length (elements s) - i)")
     apply simp
    apply (auto simp: remove_def Let_def splice1_def split: sum.splits option.splits if_splits)
  done

declare removeElements_loop.simps [simp del]

definition removeElements :: "page \<Rightarrow> js_error + page" where
  "removeElements s = removeElements_loop 0 s"

text \<open>
  Example pages. A \<^verbatim>\<open>div\<close> or paragraph made by \<^verbatim>\<open>createDiv\<close> or
  \<^verbatim>\<open>createP\<close>, with a mouse listener; the canvas; a video made by
  \<^verbatim>\<open>createVideo\<close>, which has no stream. The page of the example in the documentation
  of \<open>removeElements\<close> registers the canvas, a div and a paragraph; the other page
  registers one video.
\<close>

definition plain_div :: p5_handle where
  "plain_div = \<lparr>helt = \<lparr>canvas = False, attached = True, listeners = [(''click'', 0)], srcObject = None\<rparr>,
     media = False, events = [(''click'', 0)]\<rparr>"

definition main_canvas :: p5_handle where
  "main_canvas = \<lparr>helt = \<lparr>canvas = True, attached = True, listeners = [], srcObject = None\<rparr>,
     media = False, events = []\<rparr>"

definition url_video :: p5_handle where
  "url_video = \<lparr>helt = \<lparr>canvas = False, attached = True, listeners = [], srcObject = None\<rparr>,
     media = True, events = []\<rparr>"

definition doc_page :: page where
  "doc_page = \<lparr>handles = (\<lambda>a. if a = 0 then main_canvas else plain_div),
     option_attached = (\<lambda>n. False), elements = [Handle 0, Handle 1, Handle 2]\<rparr>"

definition video_page :: page where
  "video_page = \<lparr>handles = (\<lambda>a. url_video), option_attached = (\<lambda>n. False),
     elements = [Handle 0]\<rparr>"

section \<open>Properties of the cue scheduler\<close>

lemma onTimeUpdate_loop_filter:
  "onTimeUpdate_loop i p m tr =
     tr @ map (\<lambda>c. (callback c, val c))
            (filter (\<lambda>c. prevTime m < time c \<and> time c \<le> p) (drop i (cues m)))"
proof (induction i p m tr rule: onTimeUpdate_loop.induct)
  case (1 i p m tr)
  show ?case
  proof (cases "i < length (cues m)")
    case False
    then show ?thesis by (subst onTimeUpdate_loop.simps) simp
  next
    case True
    then have d: "drop i (cues m) = cues m ! i # drop (Suc i) (cues m)"
      by (simp add: Cons_nth_drop_Suc)
    show ?thesis
    proof (cases "prevTime m < time (cues m ! i) \<and> time (cues m ! i) \<le> p")
      case hit: True
      with True "1.IH"(1) [OF True refl refl hit] d show ?thesis
        by (subst onTimeUpdate_loop.simps) simp
    next
      case miss: False
      with True "1.IH"(2) [OF True refl refl miss] d show ?thesis
        by (subst onTimeUpdate_loop.simps) auto
    qed
  qed
qed

lemma onTimeUpdate_eq:
  "onTimeUpdate m =
     (map (\<lambda>c. (callback c, val c))
        (filter (\<lambda>c. prevTime m < time c \<and> time c \<le> currentTime (elt m)) (cues m)),
      m\<lparr>prevTime := currentTime (elt m)\<rparr>)"
  by (simp add: onTimeUpdate_def Let_def onTimeUpdate_loop_filter)

lemma addCue_cues:
  "cues (snd (addCue t cb v m)) =
     cues m @ [\<lparr>callback = cb, time = t, cid = cueIDCounter m, val = v\<rparr>]"
  by (simp add: addCue_def Let_def)

lemma three_cues_eq:
  "three_cues = \<lparr>elt = idle_elt\<lparr>ontimeupdate := Some CueDispatch\<rparr>, src = ''beat.mp3'',
     prevTime = 0, cueIDCounter = 3,
     cues = [\<lparr>callback = ''a'', time = 0.5, cid = 0, val = 1\<rparr>,
             \<lparr>callback = ''b'', time = 1.0, cid = 1, val = 2\<rparr>,
             \<lparr>callback = ''c'', time = 2.5, cid = 2, val = 3\<rparr>],
     loadedmetadata = False, presetPlaybackRate = None, mwidth = 0, mheight = 0\<rparr>"
  by (simp add: three_cues_def run_cue_ops_def newMediaElement_def addCue_def idle_elt_def Let_def)

text \<open>
  The playback sequence of the specification: with cues at 0.5, 1.0 and 2.5 and updates at
  0.0, 0.6, 1.2 and 2.6, the update at 0.6 fires the first cue, the one at 1.2 the second,
  the one at 2.6 the third, and none fires twice.
\<close>

lemma playback_example:
  "fst (host_timeupdate 0.0 three_cues) = []"
  "fst (host_timeupdate 0.6 (snd (host_timeupdate 0.0 three_cues))) = [(''a'', 1)]"
  "fst (host_timeupdate 1.2 (snd (host_timeupdate 0.6 (snd (host_timeupdate 0.0 three_cues)))))
     = [(''b'', 2)]"
  "fst (host_timeupdate 2.6 (snd (host_timeupdate 1.2 (snd (host_timeupdate 0.6
     (snd (host_timeupdate 0.0 three_cues))))))) = [(''c'', 3)]"
  by (simp_all add: host_timeupdate_def three_cues_eq onTimeUpdate_eq Let_def)

text \<open>
  Claim C1. On a time-update notification the callbacks invoked are exactly those of the
  cues whose trigger time \<open>t\<close> satisfies \<open>prevTime < t \<le> currentTime\<close>, each with its
  payload, in the order of the cue list, which is the order of the \<open>addCue\<close> calls (a new
  cue goes to the end of the list); afterwards the watermark \<open>prevTime\<close> is the current
  time, whatever fired. So an update that moves backwards fires nothing and only resets
  the watermark.
\<close>

theorem onTimeUpdate_fires_window:
  "onTimeUpdate m =
     (map (\<lambda>c. (callback c, val c))
        (filter (\<lambda>c. prevTime m < time c \<and> time c \<le> currentTime (elt m)) (cues m)),
      m\<lparr>prevTime := currentTime (elt m)\<rparr>)
   \<and> cues (snd (addCue t cb v m)) =
       cues m @ [\<lparr>callback = cb, time = t, cid = cueIDCounter m, val = v\<rparr>]
   \<and> (currentTime (elt m) < prevTime m \<longrightarrow>
        onTimeUpdate m = ([], m\<lparr>prevTime := currentTime (elt m)\<rparr>))"
proof -
  have c: "currentTime (elt m) < prevTime m \<longrightarrow>
        onTimeUpdate m = ([], m\<lparr>prevTime := currentTime (elt m)\<rparr>)"
  proof
    assume bw: "currentTime (elt m) < prevTime m"
    have "filter (\<lambda>c. prevTime m < time c \<and> time c \<le> currentTime (elt m)) (cues m) = []"
      using bw by (auto simp: filter_empty_conv)
    then show "onTimeUpdate m = ([], m\<lparr>prevTime := currentTime (elt m)\<rparr>)"
      by (simp add: onTimeUpdate_eq)
  qed
  from onTimeUpdate_eq [of m] addCue_cues [of t cb v m] c show ?thesis
    by simp
qed

text \<open>
  The theorem at a backward update: the handle with the three cues has seen the position
  1.2, and the host now reports 0.3.
\<close>

theorem onTimeUpdate_fires_window_witness:
  "currentTime (elt (three_cues\<lparr>prevTime := 1.2, elt := (elt three_cues)\<lparr>currentTime := 0.3\<rparr>\<rparr>))
     < prevTime (three_cues\<lparr>prevTime := 1.2, elt := (elt three_cues)\<lparr>currentTime := 0.3\<rparr>\<rparr>)
   \<and> fst (onTimeUpdate (three_cues\<lparr>prevTime := 1.2, elt := (elt three_cues)\<lparr>currentTime := 0.3\<rparr>\<rparr>)) = []
   \<and> prevTime (snd (onTimeUpdate
         (three_cues\<lparr>prevTime := 1.2, elt := (elt three_cues)\<lparr>currentTime := 0.3\<rparr>\<rparr>))) = 0.3"
  using onTimeUpdate_fires_window
    [of "three_cues\<lparr>prevTime := 1.2, elt := (elt three_cues)\<lparr>currentTime := 0.3\<rparr>\<rparr>"]
  by (simp add: three_cues_eq)

lemma removeCue_loop_Nil: "removeCue_loop i k [] = []"
  by (subst removeCue_loop.simps) simp

lemma removeCue_loop_length: "length (removeCue_loop i k cs) \<le> length cs"
proof (induction i k cs rule: removeCue_loop.induct)
  case (1 i k cs)
  show ?case
  proof (cases "i < length cs")
    case False
    then show ?thesis by (subst removeCue_loop.simps) simp
  next
    case True
    show ?thesis
    proof (cases "cid (cs ! i) = k")
      case hit: True
      from "1.IH"(1) [OF True hit] True hit show ?thesis
        by (subst removeCue_loop.simps) (simp add: splice1_def)
    next
      case miss: False
      from "1.IH"(2) [OF True miss] True miss show ?thesis
        by (subst removeCue_loop.simps) simp
    qed
  qed
qed

lemma addCue_inv: "sched_inv (snd (addCue t cb v m))"
  by (simp add: addCue_def sched_inv_def subscribed_def Let_def)

lemma removeCue_inv: "sched_inv m \<Longrightarrow> sched_inv (removeCue k m)"
proof (cases "removeCue_loop 0 k (cues m) = []")
  case True
  then show ?thesis
    by (simp add: removeCue_def sched_inv_def subscribed_def)
next
  case False
  assume inv: "sched_inv m"
  from False removeCue_loop_Nil [of 0 k] have "cues m \<noteq> []"
    by metis
  with inv False show ?thesis
    by (simp add: removeCue_def sched_inv_def subscribed_def)
qed

lemma clearCues_inv: "sched_inv (clearCues m)"
  by (simp add: clearCues_def sched_inv_def subscribed_def Let_def)

lemma host_timeupdate_inv: "sched_inv m \<Longrightarrow> sched_inv (snd (host_timeupdate t m))"
  by (cases "ontimeupdate (elt m) = Some CueDispatch")
    (simp_all add: host_timeupdate_def onTimeUpdate_eq sched_inv_def subscribed_def Let_def)

lemma apply_cue_op_inv: "sched_inv m \<Longrightarrow> sched_inv (apply_cue_op op m)"
  by (cases op) (simp_all add: addCue_inv removeCue_inv clearCues_inv host_timeupdate_inv)

lemma newMediaElement_inv: "ontimeupdate e = None \<Longrightarrow> sched_inv (newMediaElement e s)"
  by (simp add: newMediaElement_def sched_inv_def subscribed_def)

lemma run_cue_ops_inv: "sched_inv m \<Longrightarrow> sched_inv (run_cue_ops ops m)"
  unfolding run_cue_ops_def
  by (induction ops arbitrary: m) (simp_all add: apply_cue_op_inv)

lemma addCue_installs:
  "ontimeupdate (elt m) = None \<Longrightarrow> ontimeupdate (elt (snd (addCue t cb v m))) = Some CueDispatch"
  by (simp add: addCue_def Let_def)

lemma removeCue_uninstalls:
  "cues (removeCue k m) = [] \<Longrightarrow> ontimeupdate (elt (removeCue k m)) = None"
  by (simp add: removeCue_def Let_def split: if_splits)

lemma clearCues_idle: "cues (clearCues m) = [] \<and> ontimeupdate (elt (clearCues m)) = None"
  by (simp add: clearCues_def Let_def)

text \<open>
  Claim C4. On a handle built by the constructor over a host node with no time-update
  handler, after any sequence of \<open>addCue\<close>, \<open>removeCue\<close>, \<open>clearCues\<close> calls and time-update
  notifications, a time-update handler is installed exactly when the cue list is not
  empty, and the next call keeps it so. In such a state \<open>addCue\<close> on a handle with no
  handler installs the scheduler's, a \<open>removeCue\<close> that leaves the list empty sets the
  handler to null, and \<open>clearCues\<close> empties the list and sets the handler to null always.
\<close>

theorem cue_subscription_invariant:
  assumes "ontimeupdate e = None" and "m = run_cue_ops ops (newMediaElement e s)"
  shows "sched_inv m \<and> sched_inv (apply_cue_op op m)
    \<and> (ontimeupdate (elt m) = None \<longrightarrow>
         ontimeupdate (elt (snd (addCue t cb v m))) = Some CueDispatch)
    \<and> (cues (removeCue k m) = [] \<longrightarrow> ontimeupdate (elt (removeCue k m)) = None)
    \<and> cues (clearCues m) = [] \<and> ontimeupdate (elt (clearCues m)) = None"
proof -
  from assms have inv: "sched_inv m"
    by (simp add: newMediaElement_inv run_cue_ops_inv)
  then have step: "sched_inv (apply_cue_op op m)"
    by (rule apply_cue_op_inv)
  from inv step addCue_installs [of m t cb v] removeCue_uninstalls [of k m] clearCues_idle [of m]
  show ?thesis by blast
qed

text \<open>
  The theorem on the handle with one cue, whose id is 0: removing that cue empties the list
  and uninstalls the handler; on the fresh handle, adding a cue installs it.
\<close>

theorem cue_subscription_invariant_witness:
  "ontimeupdate idle_elt = None
   \<and> sched_inv (run_cue_ops [AddCue 1 ''a'' (7::nat)] (newMediaElement idle_elt ''x''))
   \<and> cues (removeCue 0 (run_cue_ops [AddCue 1 ''a'' (7::nat)] (newMediaElement idle_elt ''x''))) = []
   \<and> ontimeupdate (elt (removeCue 0
        (run_cue_ops [AddCue 1 ''a'' (7::nat)] (newMediaElement idle_elt ''x'')))) = None
   \<and> ontimeupdate (elt (run_cue_ops [] (newMediaElement idle_elt ''x'' :: (string, nat) MediaElement))) = None
   \<and> ontimeupdate (elt (snd (addCue 1 ''a'' (7::nat)
        (run_cue_ops [] (newMediaElement idle_elt ''x''))))) = Some CueDispatch"
proof -
  have h: "ontimeupdate idle_elt = None"
    by (simp add: idle_elt_def)
  have c: "cues (removeCue 0 (run_cue_ops [AddCue 1 ''a'' (7::nat)] (newMediaElement idle_elt ''x''))) = []"
    by (simp add: removeCue_def run_cue_ops_def addCue_def newMediaElement_def Let_def
        removeCue_loop.simps splice1_def)
  have n: "ontimeupdate (elt (run_cue_ops [] (newMediaElement idle_elt ''x'' :: (string, nat) MediaElement))) = None"
    by (simp add: run_cue_ops_def newMediaElement_def idle_elt_def)
  from h c n
    cue_subscription_invariant [OF h refl, where ops = "[AddCue 1 ''a'' (7::nat)]" and s = "''x''" and k = 0]
    cue_subscription_invariant [OF h refl, where ops = "[] :: (string, nat) cue_op list" and s = "''x''"
      and t = 1 and cb = "''a''" and v = 7]
  show ?thesis by simp
qed

subsection \<open>What removeCue removes\<close>

text \<open>
  The loop of \<open>removeCue\<close> skips the entry after one it removes. Ids come from a counter
  that only grows, so no two cues of a handle share an id, and the loop removes exactly the
  cue with the id given and keeps the order of the others.
\<close>

lemma removeCue_loop_filter:
  "distinct (map cid (drop i cs)) \<Longrightarrow>
     removeCue_loop i k cs = take i cs @ filter (\<lambda>c. cid c \<noteq> k) (drop i cs)"
proof (induction i k cs rule: removeCue_loop.induct)
  case (1 i k cs)
  show ?case
  proof (cases "i < length cs")
    case False
    then show ?thesis by (subst removeCue_loop.simps) simp
  next
    case True
    then have d: "drop i cs = cs ! i # drop (Suc i) cs"
      by (simp add: Cons_nth_drop_Suc)
    with "1.prems" have fresh: "cid (cs ! i) \<notin> cid ` set (drop (Suc i) cs)"
      and dist: "distinct (map cid (drop (Suc i) cs))"
      by simp_all
    show ?thesis
    proof (cases "cid (cs ! i) = k")
      case hit: True
      let ?cs' = "splice1 i cs"
      from True have dr: "drop (Suc i) ?cs' = drop (Suc (Suc i)) cs"
        by (simp add: splice1_def)
      have "distinct (map cid (drop (Suc (Suc i)) cs))"
        using dist distinct_drop [of "map cid (drop (Suc i) cs)" 1] by (simp add: drop_map)
      with dr have p: "distinct (map cid (drop (Suc i) ?cs'))" by simp
      have sub: "set (drop (Suc (Suc i)) cs) \<subseteq> set (drop (Suc i) cs)"
        using set_drop_subset_set_drop [of "Suc i" "Suc (Suc i)" cs] by simp
      from fresh hit have nok: "\<forall>c \<in> set (drop (Suc i) cs). cid c \<noteq> k"
        by (metis imageI)
      then have f1: "filter (\<lambda>c. cid c \<noteq> k) (drop (Suc i) cs) = drop (Suc i) cs"
        by (simp add: filter_id_conv)
      from nok sub have f2: "filter (\<lambda>c. cid c \<noteq> k) (drop (Suc (Suc i)) cs) = drop (Suc (Suc i)) cs"
        by (auto simp: filter_id_conv)
      have "removeCue_loop i k cs = removeCue_loop (Suc i) k ?cs'"
        using True hit by (subst removeCue_loop.simps) simp
      also from "1.IH"(1) [OF True hit p]
      have "\<dots> = take (Suc i) ?cs' @ filter (\<lambda>c. cid c \<noteq> k) (drop (Suc i) ?cs')" .
      also have "\<dots> = take (Suc i) ?cs' @ drop (Suc i) ?cs'"
        by (simp only: dr f2)
      also have "\<dots> = ?cs'" by simp
      also have "\<dots> = take i cs @ filter (\<lambda>c. cid c \<noteq> k) (drop i cs)"
        using d hit f1 by (simp add: splice1_def)
      finally show ?thesis .
    next
      case miss: False
      have "removeCue_loop i k cs = removeCue_loop (Suc i) k cs"
        using True miss by (subst removeCue_loop.simps) simp
      also from "1.IH"(2) [OF True miss dist]
      have "\<dots> = take (Suc i) cs @ filter (\<lambda>c. cid c \<noteq> k) (drop (Suc i) cs)" .
      also have "\<dots> = take i cs @ filter (\<lambda>c. cid c \<noteq> k) (drop i cs)"
        using True d miss by (simp add: take_Suc_conv_app_nth)
      finally show ?thesis .
    qed
  qed
qed

lemma removeCue_cues:
  "cues_wf m \<Longrightarrow> cues (removeCue k m) = filter (\<lambda>c. cid c \<noteq> k) (cues m)"
  using removeCue_loop_filter [of 0 "cues m" k]
  by (simp add: removeCue_def cues_wf_def Let_def)

lemma addCue_wf: "cues_wf m \<Longrightarrow> cues_wf (snd (addCue t cb v m))"
proof -
  assume wf: "cues_wf m"
  then have "cueIDCounter m \<notin> cid ` set (cues m)"
    by (auto simp: cues_wf_def list_all_iff)
  with wf show ?thesis
    by (auto simp: cues_wf_def addCue_def Let_def list_all_iff less_Suc_eq)
qed

lemma removeCue_wf: "cues_wf m \<Longrightarrow> cues_wf (removeCue k m)"
proof -
  assume wf: "cues_wf m"
  have c: "cueIDCounter (removeCue k m) = cueIDCounter m"
    by (simp add: removeCue_def Let_def)
  from wf have "distinct (map cid (filter (\<lambda>c. cid c \<noteq> k) (cues m)))"
    by (simp add: cues_wf_def distinct_map_filter)
  moreover from wf have "list_all (\<lambda>c. cid c < cueIDCounter m) (filter (\<lambda>c. cid c \<noteq> k) (cues m))"
    by (simp add: cues_wf_def list_all_iff)
  ultimately show ?thesis
    unfolding cues_wf_def c removeCue_cues [OF wf] by simp
qed

lemma apply_cue_op_wf: "cues_wf m \<Longrightarrow> cues_wf (apply_cue_op op m)"
proof (cases op)
  case (AddCue t cb v)
  assume "cues_wf m"
  with AddCue show ?thesis by (simp add: addCue_wf)
next
  case (RemoveCue k)
  assume "cues_wf m"
  with RemoveCue show ?thesis by (simp add: removeCue_wf)
next
  case ClearCues
  then show ?thesis by (simp add: cues_wf_def clearCues_def Let_def)
next
  case (TimeUpdate t)
  assume "cues_wf m"
  with TimeUpdate show ?thesis
    by (cases "ontimeupdate (elt m) = Some CueDispatch")
      (simp_all add: cues_wf_def host_timeupdate_def onTimeUpdate_eq Let_def)
qed

lemma run_cue_ops_wf: "cues_wf m \<Longrightarrow> cues_wf (run_cue_ops ops m)"
  unfolding run_cue_ops_def
  by (induction ops arbitrary: m) (simp_all add: apply_cue_op_wf)

lemma newMediaElement_wf: "cues_wf (newMediaElement e s)"
  by (simp add: cues_wf_def newMediaElement_def)

lemma removeCue_only_cue:
  "cues m = [c] \<Longrightarrow> cid c = k \<Longrightarrow>
     cues (removeCue k m) = [] \<and> ontimeupdate (elt (removeCue k m)) = None"
  by (simp add: removeCue_def removeCue_loop.simps splice1_def Let_def)

section \<open>Properties of the playback rate and of play\<close>

lemma speed_set_before_metadata:
  "\<not> loadedmetadata m \<Longrightarrow> speed (Some x) m = (None, m\<lparr>presetPlaybackRate := Some x\<rparr>)"
  by (simp add: speed_def)

lemma speed_set_after_metadata:
  "loadedmetadata m \<Longrightarrow> speed (Some x) m = (None, m\<lparr>elt := (elt m)\<lparr>playbackRate := x\<rparr>\<rparr>)"
  by (simp add: speed_def)

lemma loadedmetadata_flush:
  "presetPlaybackRate c = Some x \<Longrightarrow> x \<noteq> 0 \<Longrightarrow>
     playbackRate (elt (createMedia_loadedmetadata c)) = x
   \<and> presetPlaybackRate (createMedia_loadedmetadata c) = None
   \<and> loadedmetadata (createMedia_loadedmetadata c)"
  by (simp add: createMedia_loadedmetadata_def truthy_num_def Let_def)

lemma loadedmetadata_no_preset:
  "presetPlaybackRate c = None \<Longrightarrow>
     playbackRate (elt (createMedia_loadedmetadata c)) = playbackRate (elt c)
   \<and> presetPlaybackRate (createMedia_loadedmetadata c) = None"
  by (simp add: createMedia_loadedmetadata_def truthy_num_def Let_def)

text \<open>
  Where the code does what it is meant to: on a handle made by \<open>createMedia\<close> whose
  metadata has not loaded, \<open>speed(x)\<close> with \<open>x\<close> not zero leaves the host's playback rate
  as it is and stores \<open>x\<close> as the preset; the metadata notification then sets the host's
  rate to \<open>x\<close> and deletes the preset, and a repeated notification changes neither.
\<close>

lemma speed_preset_flushed:
  assumes "x \<noteq> 0" and nl: "\<not> loadedmetadata m"
  shows "playbackRate (elt (snd (speed (Some x) m))) = playbackRate (elt m)"
    and "presetPlaybackRate (snd (speed (Some x) m)) = Some x"
    and "playbackRate (elt (host_loadedmetadata CreateMedia (snd (speed (Some x) m)))) = x"
    and "presetPlaybackRate (host_loadedmetadata CreateMedia (snd (speed (Some x) m))) = None"
    and "loadedmetadata (host_loadedmetadata CreateMedia (snd (speed (Some x) m)))"
    and "playbackRate (elt (host_loadedmetadata CreateMedia
           (host_loadedmetadata CreateMedia (snd (speed (Some x) m))))) = x"
    and "presetPlaybackRate (host_loadedmetadata CreateMedia
           (host_loadedmetadata CreateMedia (snd (speed (Some x) m)))) = None"
proof -
  let ?m1 = "snd (speed (Some x) m)"
  let ?m2 = "createMedia_loadedmetadata ?m1"
  from nl have m1: "?m1 = m\<lparr>presetPlaybackRate := Some x\<rparr>"
    by (simp add: speed_set_before_metadata)
  then show "playbackRate (elt ?m1) = playbackRate (elt m)" by simp
  from m1 show p1: "presetPlaybackRate ?m1 = Some x" by simp
  from loadedmetadata_flush [OF p1 assms(1)]
  have r2: "playbackRate (elt ?m2) = x" and p2: "presetPlaybackRate ?m2 = None"
    and l2: "loadedmetadata ?m2"
    by simp_all
  from r2 p2 l2
  show "playbackRate (elt (host_loadedmetadata CreateMedia ?m1)) = x"
    and "presetPlaybackRate (host_loadedmetadata CreateMedia ?m1) = None"
    and "loadedmetadata (host_loadedmetadata CreateMedia ?m1)"
    by simp_all
  from loadedmetadata_no_preset [OF p2] r2
  show "playbackRate (elt (host_loadedmetadata CreateMedia (host_loadedmetadata CreateMedia ?m1))) = x"
    and "presetPlaybackRate (host_loadedmetadata CreateMedia (host_loadedmetadata CreateMedia ?m1)) = None"
    by simp_all
qed

text \<open>Once the metadata has loaded, \<open>speed(x)\<close> sets the host's rate at once, for every \<open>x\<close>.\<close>

lemma speed_after_metadata:
  "loadedmetadata m \<Longrightarrow>
     playbackRate (elt (snd (speed (Some x) m))) = x
   \<and> presetPlaybackRate (snd (speed (Some x) m)) = presetPlaybackRate m"
  by (simp add: speed_set_after_metadata)

lemma capture_keeps_preset:
  "playbackRate (elt (host_loadedmetadata CreateCapture c)) = playbackRate (elt c)
   \<and> presetPlaybackRate (host_loadedmetadata CreateCapture c) = presetPlaybackRate c"
  by (simp add: createCapture_loadedmetadata_def Let_def)

text \<open>
  Claim C6 on three handles whose metadata has not loaded. On a video made by
  \<^verbatim>\<open>createVideo\<close>, \<open>speed(0)\<close> is buffered, but the listener tests the preset for
  truthiness, so the notification neither sets the host's rate to 0 (it stays 1) nor
  deletes the preset; after the metadata, \<open>speed(0)\<close> does set the rate to 0. On a handle
  made by \<^verbatim>\<open>createCapture\<close>, \<open>speed(2)\<close> is buffered and the listener of that maker
  never applies it. On a handle made by \<^verbatim>\<open>_wrapElement\<close> there is no listener:
  \<open>speed(2)\<close> is buffered, the notification changes nothing, and the metadata never counts
  as loaded.
\<close>

theorem speed_preset_not_applied:
  "\<not> loadedmetadata fresh_video
   \<and> presetPlaybackRate (snd (speed (Some 0) fresh_video)) = Some 0
   \<and> playbackRate (elt (host_loadedmetadata CreateMedia (snd (speed (Some 0) fresh_video)))) = 1
   \<and> presetPlaybackRate (host_loadedmetadata CreateMedia (snd (speed (Some 0) fresh_video))) = Some 0
   \<and> playbackRate (elt (snd (speed (Some 0) (host_loadedmetadata CreateMedia fresh_video)))) = 0
   \<and> \<not> loadedmetadata fresh_capture
   \<and> presetPlaybackRate (snd (speed (Some 2) fresh_capture)) = Some 2
   \<and> playbackRate (elt (host_loadedmetadata CreateCapture (snd (speed (Some 2) fresh_capture)))) = 1
   \<and> presetPlaybackRate (host_loadedmetadata CreateCapture (snd (speed (Some 2) fresh_capture))) = Some 2
   \<and> \<not> loadedmetadata wrapped_video
   \<and> host_loadedmetadata WrapElement (snd (speed (Some 2) wrapped_video))
       = wrapped_video\<lparr>presetPlaybackRate := Some 2\<rparr>
   \<and> playbackRate (elt (wrapped_video\<lparr>presetPlaybackRate := Some 2\<rparr>)) = 1"
  by (simp add: fresh_video_def fresh_capture_def wrapped_video_def newMediaElement_def idle_elt_def
      speed_def createMedia_loadedmetadata_def createCapture_loadedmetadata_def truthy_num_def Let_def)

text \<open>
  Claim C10. \<open>speed()\<close> with no argument leaves the handle as it is; while a preset that
  is not zero is buffered it returns the preset, not the host's playback rate; it returns
  the host's rate when no preset is stored (or the stored one is zero).
\<close>

theorem speed_getter_prefers_preset:
  "snd (speed None m) = m
   \<and> (presetPlaybackRate m = Some p \<and> p \<noteq> 0 \<longrightarrow> fst (speed None m) = Some p)
   \<and> (presetPlaybackRate m = None \<or> presetPlaybackRate m = Some 0 \<longrightarrow>
        fst (speed None m) = Some (playbackRate (elt m)))"
  by (auto simp: speed_def truthy_num_def)

text \<open>The theorem after \<open>speed(2)\<close> on a new video handle, whose host rate is still 1, and on the
  new handle itself.\<close>

theorem speed_getter_prefers_preset_witness:
  "presetPlaybackRate (snd (speed (Some 2) fresh_video)) = Some 2 \<and> (2::real) \<noteq> 0
   \<and> playbackRate (elt (snd (speed (Some 2) fresh_video))) = 1
   \<and> fst (speed None (snd (speed (Some 2) fresh_video))) = Some 2
   \<and> presetPlaybackRate fresh_video = None
   \<and> fst (speed None fresh_video) = Some 1"
proof -
  have a: "presetPlaybackRate (snd (speed (Some 2) fresh_video)) = Some 2"
    and b: "playbackRate (elt (snd (speed (Some 2) fresh_video))) = 1"
    and c: "presetPlaybackRate fresh_video = None"
    and d: "playbackRate (elt fresh_video) = 1"
    by (simp_all add: fresh_video_def newMediaElement_def idle_elt_def speed_def)
  from a b c d
    speed_getter_prefers_preset [of "snd (speed (Some 2) fresh_video)" 2]
    speed_getter_prefers_preset [of fresh_video]
  show ?thesis by simp
qed

lemma play_synchronous:
  "fst (play promise m) =
     (if currentTime (elt m) = duration (elt m) then m\<lparr>elt := (elt m)\<lparr>currentTime := 0\<rparr>\<rparr> else m)
   \<and> fst (snd (play promise m)) =
     (if readyState (elt m) > 1 then [HostPlay] else [HostLoad, HostPlay])"
  by (simp add: play_def Let_def)

lemma play_other_rejection:
  "e_name \<noteq> ''NotAllowedError'' \<Longrightarrow>
     snd (snd (play (Rejects e_name) m)) = Some (Inr (ConsoleError e_name))"
  by (simp add: play_def play_catch_def Let_def)

text \<open>
  Claim C7 at a rejection with the permission error. The handler reaches
  \<^verbatim>\<open>p5._friendlyAutoplayError(this.src)\<close> and fails on \<^verbatim>\<open>this.src\<close> with a TypeError
  before the warning is called: the rejection is not routed to the autoplay warning.
\<close>

theorem play_NotAllowedError_not_reported:
  "snd (snd (play (Rejects ''NotAllowedError'') fresh_video)) = Some (Inl TypeError)"
  by (simp add: play_def play_catch_def Let_def)

section \<open>Properties of the dispatcher\<close>

text \<open>
  Claim C3. The handle that \<open>_wrapElement\<close> returns always wraps the node given, and its
  kind is decided by the first of these conditions that holds: the node is an input of type
  checkbox (a plain handle with the checkbox method); it is a video or audio node (a media
  handle); it is a select control (the select methods, on the same node); it has at least
  one child and every child is an input or a label (the radio methods); otherwise a plain
  handle with no methods added.
\<close>

theorem wrapElement_first_match:
  "wrapElement e =
     (if is_checkbox e then \<lparr>welt = e, wclass = P5Element, wcaps = [Checkbox]\<rparr>
      else if is_media e then \<lparr>welt = e, wclass = P5MediaElement, wcaps = []\<rparr>
      else if is_select e then \<lparr>welt = e, wclass = P5Element, wcaps = [Select]\<rparr>
      else if is_radio_container e then \<lparr>welt = e, wclass = P5Element, wcaps = [RadioGroup]\<rparr>
      else \<lparr>welt = e, wclass = P5Element, wcaps = []\<rparr>)"
  by (simp add: wrapElement_def is_checkbox_def is_media_def is_select_def
      is_radio_container_def createSelect_def createRadio_def
      new_Element_def new_MediaElement_def Let_def)

lemma wrapElement_examples:
  "wcaps (wrapElement (Node ''INPUT'' ''checkbox'' [] ''on'' False [])) = [Checkbox]"
  "wclass (wrapElement (Node ''VIDEO'' [] [] [] False [Node ''INPUT'' ''radio'' ''g'' ''a'' False []]))
     = P5MediaElement"
  "wcaps (wrapElement (Node ''DIV'' [] [] [] False
     [Node ''INPUT'' ''radio'' ''g'' ''a'' False [], Node ''LABEL'' [] [] [] False []])) = [RadioGroup]"
  "wcaps (wrapElement (Node ''DIV'' [] [] [] False
     [Node ''INPUT'' ''radio'' ''g'' ''a'' False [], Node ''SPAN'' [] [] [] False []])) = []"
  "wcaps (wrapElement (Node ''DIV'' [] [] [] False [])) = []"
  by (simp_all add: wrapElement_def createRadio_def new_Element_def new_MediaElement_def Let_def)

section \<open>Properties of the select control\<close>

lemma option_scan_Some:
  "option_scan i name opts = Some k \<Longrightarrow>
     i \<le> k \<and> k < length opts \<and> innerHTML (opts ! k) = name
     \<and> (\<forall>j. i \<le> j \<and> j < k \<longrightarrow> innerHTML (opts ! j) \<noteq> name)"
proof (induction i name opts rule: option_scan.induct)
  case (1 i name opts)
  show ?case
  proof (cases "i < length opts \<and> innerHTML (opts ! i) \<noteq> name")
    case True
    with "1.prems" have "option_scan (Suc i) name opts = Some k"
      by (subst (asm) option_scan.simps) simp
    with "1.IH" True have ih: "Suc i \<le> k \<and> k < length opts \<and> innerHTML (opts ! k) = name
       \<and> (\<forall>j. Suc i \<le> j \<and> j < k \<longrightarrow> innerHTML (opts ! j) \<noteq> name)"
      by simp
    have "\<forall>j. i \<le> j \<and> j < k \<longrightarrow> innerHTML (opts ! j) \<noteq> name"
    proof (intro allI impI)
      fix j assume "i \<le> j \<and> j < k"
      then have "j = i \<or> (Suc i \<le> j \<and> j < k)" by arith
      with True ih show "innerHTML (opts ! j) \<noteq> name" by blast
    qed
    with ih show ?thesis by simp
  next
    case False
    with "1.prems" show ?thesis
      by (subst (asm) option_scan.simps) (auto split: if_splits)
  qed
qed

lemma option_scan_None:
  "option_scan i name opts = None \<Longrightarrow> i \<le> j \<Longrightarrow> j < length opts \<Longrightarrow> innerHTML (opts ! j) \<noteq> name"
proof (induction i name opts rule: option_scan.induct)
  case (1 i name opts)
  from "1.prems" have lt: "i < length opts" by simp
  from "1.prems"(1) lt have ne: "innerHTML (opts ! i) \<noteq> name"
    by (subst (asm) option_scan.simps) (simp split: if_splits)
  from "1.prems"(1) lt ne have rest: "option_scan (Suc i) name opts = None"
    by (subst (asm) option_scan.simps) simp
  show ?case
  proof (cases "j = i")
    case True
    with ne show ?thesis by simp
  next
    case False
    with "1.prems" have "Suc i \<le> j" by simp
    with "1.IH" [OF lt ne rest] "1.prems" show ?thesis by simp
  qed
qed

lemma option_scan_first:
  "(option_scan 0 name opts = Some k) =
     (k < length opts \<and> innerHTML (opts ! k) = name \<and> (\<forall>j<k. innerHTML (opts ! j) \<noteq> name))"
proof
  assume "option_scan 0 name opts = Some k"
  from option_scan_Some [OF this] show
    "k < length opts \<and> innerHTML (opts ! k) = name \<and> (\<forall>j<k. innerHTML (opts ! j) \<noteq> name)"
    by simp
next
  assume r: "k < length opts \<and> innerHTML (opts ! k) = name \<and> (\<forall>j<k. innerHTML (opts ! j) \<noteq> name)"
  show "option_scan 0 name opts = Some k"
  proof (cases "option_scan 0 name opts")
    case None
    from option_scan_None [OF None, of k] r show ?thesis by simp
  next
    case (Some k')
    from option_scan_Some [OF Some] have k': "k' < length opts \<and> innerHTML (opts ! k') = name
      \<and> (\<forall>j. j < k' \<longrightarrow> innerHTML (opts ! j) \<noteq> name)" by simp
    with r have "\<not> k < k'" and "\<not> k' < k" by auto
    then have "k' = k" by arith
    with Some show ?thesis by simp
  qed
qed

lemma option_scan_absent:
  "(option_scan 0 name opts = None) = (name \<notin> innerHTML ` set opts)"
proof
  assume n: "option_scan 0 name opts = None"
  show "name \<notin> innerHTML ` set opts"
  proof
    assume "name \<in> innerHTML ` set opts"
    then obtain j where "j < length opts" and "innerHTML (opts ! j) = name"
      by (auto simp: in_set_conv_nth)
    with option_scan_None [OF n, of j] show False by simp
  qed
next
  assume a: "name \<notin> innerHTML ` set opts"
  show "option_scan 0 name opts = None"
  proof (cases "option_scan 0 name opts")
    case None then show ?thesis .
  next
    case (Some k)
    from option_scan_Some [OF Some] have "k < length opts" and "innerHTML (opts ! k) = name"
      by simp_all
    then have "name \<in> innerHTML ` set opts"
      by (metis imageI nth_mem)
    with a show ?thesis by simp
  qed
qed

lemma select_option_remove:
  "option_scan 0 name (options s) = Some i \<Longrightarrow>
     options (select_option ser name (Some (JBool False)) s) = take i (options s) @ drop (Suc i) (options s)"
  by (simp add: select_option_def arg_val_def splice1_def)

lemma select_option_update:
  "option_scan 0 name (options s) = Some i \<Longrightarrow> v \<noteq> Some (JBool False) \<Longrightarrow>
     options (select_option ser name v s) =
       (options s)[i := (options s ! i)\<lparr>
          innerHTML := (if innerHTML (options s ! i) = ovalue (options s ! i)
                        then ser (to_string (arg_val v)) else innerHTML (options s ! i)),
          ovalue := to_string (arg_val v)\<rparr>]"
  by (cases v) (simp_all add: select_option_def arg_val_def Let_def)

lemma select_option_append:
  "option_scan 0 name (options s) = None \<Longrightarrow>
     options (select_option ser name v s) =
       options s @ [\<lparr>oid = next_node s, innerHTML = ser name,
                     ovalue = (case v of None \<Rightarrow> name | Some x \<Rightarrow> to_string x)\<rparr>]"
  by (cases v) (simp_all add: select_option_def Let_def)

lemma select_option_next: "next_node s \<le> next_node (select_option ser name v s)"
  by (simp add: select_option_def Let_def split: option.splits)

lemma select_option_oids:
  "oid ` set (options (select_option ser name v s)) \<subseteq> oid ` set (options s) \<union> {next_node s}"
proof (cases "option_scan 0 name (options s)")
  case None
  from select_option_append [OF None] show ?thesis by auto
next
  case (Some i)
  from option_scan_Some [OF Some] have lt: "i < length (options s)" by simp
  show ?thesis
  proof (cases "v = Some (JBool False)")
    case True
    have "set (take i (options s) @ drop (Suc i) (options s)) \<subseteq> set (options s)"
      using set_take_subset [of i "options s"] set_drop_subset [of "Suc i" "options s"] by auto
    with select_option_remove [OF Some] True show ?thesis by auto
  next
    case False
    let ?new = "(options s ! i)\<lparr>
          innerHTML := (if innerHTML (options s ! i) = ovalue (options s ! i)
                        then ser (to_string (arg_val v)) else innerHTML (options s ! i)),
          ovalue := to_string (arg_val v)\<rparr>"
    have "set ((options s)[i := ?new]) \<subseteq> insert ?new (set (options s))"
      by (rule set_update_subset_insert)
    then have "oid ` set ((options s)[i := ?new]) \<subseteq> insert (oid ?new) (oid ` set (options s))"
      by blast
    moreover have "oid ?new = oid (options s ! i)"
      by simp
    moreover have "oid (options s ! i) \<in> oid ` set (options s)"
      using lt by simp
    ultimately have "oid ` set ((options s)[i := ?new]) \<subseteq> oid ` set (options s)"
      by (simp add: insert_absorb)
    with select_option_update [OF Some False] show ?thesis
      by (simp add: subset_iff)
  qed
qed

lemma run_options_oids:
  "oid ` set (options s) \<subseteq> A \<union> {n. N \<le> n} \<Longrightarrow> N \<le> next_node s \<Longrightarrow>
     oid ` set (options (run_options ser calls s)) \<subseteq> A \<union> {n. N \<le> n}"
proof (induction calls arbitrary: s)
  case Nil
  then show ?case by (simp add: run_options_def)
next
  case (Cons c calls)
  obtain name v where c: "c = (name, v)" by (cases c)
  have r: "run_options ser (c # calls) s = run_options ser calls (select_option ser name v s)"
    by (simp add: run_options_def c)
  from Cons.prems(2) have "{next_node s} \<subseteq> {n. N \<le> n}" by simp
  with select_option_oids [where name = name and v = v and s = s and ser = ser] Cons.prems(1)
  have a: "oid ` set (options (select_option ser name v s)) \<subseteq> A \<union> {n. N \<le> n}" by blast
  from select_option_next [where s = s and name = name and v = v and ser = ser] Cons.prems
  have b: "N \<le> next_node (select_option ser name v s)" by simp
  from Cons.IH [OF a b] r show ?case by simp
qed

lemma removed_not_resurrected:
  assumes wf: "select_wf s" and found: "option_scan 0 name (options s) = Some i"
  shows "oid (options s ! i) \<notin>
     oid ` set (options (run_options ser calls (select_option ser name (Some (JBool False)) s)))"
proof -
  let ?s1 = "select_option ser name (Some (JBool False)) s"
  let ?k = "oid (options s ! i)"
  from option_scan_Some [OF found] have lt: "i < length (options s)" by simp
  from wf have d: "distinct (map oid (options s))" and b: "\<forall>opt \<in> set (options s). oid opt < next_node s"
    by (simp_all add: select_wf_def list_all_iff)
  from lt b have kn: "?k < next_node s" by simp
  have o1: "options ?s1 = take i (options s) @ drop (Suc i) (options s)"
    by (rule select_option_remove [OF found])
  have "map oid (options s) = map oid (take i (options s)) @ ?k # map oid (drop (Suc i) (options s))"
    using lt by (metis Cons_nth_drop_Suc append_take_drop_id list.simps(9) map_append)
  with d have "?k \<notin> set (map oid (take i (options s))) \<and> ?k \<notin> set (map oid (drop (Suc i) (options s)))"
    by (metis distinct_append distinct.simps(2) disjoint_iff list.set_intros(1))
  with o1 have notin: "?k \<notin> oid ` set (options ?s1)" by auto
  have sub: "oid ` set (options ?s1) \<subseteq> oid ` set (options ?s1) \<union> {n. next_node s \<le> n}" by auto
  have ge: "next_node s \<le> next_node ?s1" by (rule select_option_next)
  from run_options_oids [OF sub ge, where calls = calls and ser = ser] notin kn show ?thesis by auto
qed

lemma select_option_next_found:
  "option_scan 0 name (options s) = Some i \<Longrightarrow> next_node (select_option ser name v s) = next_node s"
  by (simp add: select_option_def Let_def)

lemma select_option_next_absent:
  "option_scan 0 name (options s) = None \<Longrightarrow> next_node (select_option ser name v s) = Suc (next_node s)"
  by (simp add: select_option_def Let_def)

lemma select_option_wf: "select_wf s \<Longrightarrow> select_wf (select_option ser name v s)"
proof (cases "option_scan 0 name (options s)")
  case None
  assume wf: "select_wf s"
  then have bound: "\<forall>opt \<in> set (options s). oid opt < next_node s"
    and d: "distinct (map oid (options s))"
    by (simp_all add: select_wf_def list_all_iff)
  from bound have fresh: "next_node s \<notin> set (map oid (options s))"
    by auto
  let ?new = "\<lparr>oid = next_node s, innerHTML = ser name,
                ovalue = (case v of None \<Rightarrow> name | Some x \<Rightarrow> to_string x)\<rparr>"
  have o: "options (select_option ser name v s) = options s @ [?new]"
    by (rule select_option_append [OF None])
  have n: "next_node (select_option ser name v s) = Suc (next_node s)"
    by (rule select_option_next_absent [OF None])
  have "list_all (\<lambda>opt. oid opt < Suc (next_node s)) (options s @ [?new])"
    using bound by (simp add: list_all_iff less_Suc_eq)
  moreover have "distinct (map oid (options s @ [?new]))"
    using d fresh by simp
  ultimately show ?thesis
    unfolding select_wf_def o n by simp
next
  case (Some i)
  assume wf: "select_wf s"
  then have bound: "list_all (\<lambda>opt. oid opt < next_node s) (options s)"
    and d: "distinct (map oid (options s))"
    by (simp_all add: select_wf_def)
  from option_scan_Some [OF Some] have lt: "i < length (options s)" by simp
  have nx: "next_node (select_option ser name v s) = next_node s"
    by (rule select_option_next_found [OF Some])
  show ?thesis
  proof (cases "v = Some (JBool False)")
    case True
    have o: "options (select_option ser name v s) = take i (options s) @ drop (Suc i) (options s)"
      using select_option_remove [OF Some] True by simp
    have sub: "set (take i (options s) @ drop (Suc i) (options s)) \<subseteq> set (options s)"
      using set_take_subset [of i "options s"] set_drop_subset [of "Suc i" "options s"] by simp
    have a: "list_all (\<lambda>opt. oid opt < next_node s) (take i (options s) @ drop (Suc i) (options s))"
      using bound sub unfolding list_all_iff by blast
    have "distinct (take i (map oid (options s)) @ drop (Suc i) (map oid (options s)))"
      using d distinct_take [of "map oid (options s)" i] distinct_drop [of "map oid (options s)" "Suc i"]
        set_take_disj_set_drop_if_distinct [of "map oid (options s)" i "Suc i"]
      by simp
    then have b: "distinct (map oid (take i (options s) @ drop (Suc i) (options s)))"
      by (simp add: take_map drop_map)
    from a b show ?thesis
      unfolding select_wf_def o nx by simp
  next
    case False
    let ?new = "(options s ! i)\<lparr>
          innerHTML := (if innerHTML (options s ! i) = ovalue (options s ! i)
                        then ser (to_string (arg_val v)) else innerHTML (options s ! i)),
          ovalue := to_string (arg_val v)\<rparr>"
    have o: "options (select_option ser name v s) = (options s)[i := ?new]"
      by (rule select_option_update [OF Some False])
    have m: "map oid ((options s)[i := ?new]) = map oid (options s)"
      using lt by (simp add: map_update list_update_same_conv)
    have "list_all (\<lambda>k. k < next_node s) (map oid (options s))"
      using bound by (simp add: list_all_iff)
    then have "list_all (\<lambda>k. k < next_node s) (map oid ((options s)[i := ?new]))"
      by (simp only: m)
    then have a: "list_all (\<lambda>opt. oid opt < next_node s) ((options s)[i := ?new])"
      by (simp add: list_all_iff)
    from d m have b: "distinct (map oid ((options s)[i := ?new]))"
      by (simp only: m)
    from a b show ?thesis
      unfolding select_wf_def o nx by simp
  qed
qed

lemma new_select_wf: "select_wf new_select"
  by (simp add: new_select_def select_wf_def)

lemma run_options_wf: "select_wf s \<Longrightarrow> select_wf (run_options ser calls s)"
proof (induction calls arbitrary: s)
  case Nil
  then show ?case by (simp add: run_options_def)
next
  case (Cons c calls)
  obtain name v where c: "c = (name, v)" by (cases c)
  have r: "run_options ser (c # calls) s = run_options ser calls (select_option ser name v s)"
    by (simp add: run_options_def c)
  from Cons.IH [OF select_option_wf [OF Cons.prems, where name = name and v = v and ser = ser]] r show ?case by simp
qed

lemma select_option_found_again:
  assumes "option_scan 0 name (options s) = None" and "ser name = name"
  shows "option_scan 0 name (options (select_option ser name v s)) = Some (length (options s))"
proof -
  let ?new = "\<lparr>oid = next_node s, innerHTML = ser name,
                ovalue = (case v of None \<Rightarrow> name | Some x \<Rightarrow> to_string x)\<rparr>"
  have o: "options (select_option ser name v s) = options s @ [?new]"
    by (rule select_option_append [OF assms(1)])
  have "\<forall>j<length (options s). innerHTML ((options s @ [?new]) ! j) \<noteq> name"
    using option_scan_None [OF assms(1)] by (simp add: nth_append)
  with assms(2) have "option_scan 0 name (options s @ [?new]) = Some (length (options s))"
    by (simp add: option_scan_first)
  with o show ?thesis by simp
qed

lemma escape_amp_plain: "escape_amp ''a'' = ''a'' \<and> escape_amp ''b'' = ''b''
   \<and> escape_amp ''x'' = ''x'' \<and> escape_amp ''y'' = ''y'' \<and> escape_amp ''z'' = ''z''
   \<and> escape_amp ''a&b'' = ''a&amp;b''"
  by (simp add: escape_amp_def)

lemma one_option_eq:
  "one_option = \<lparr>options = [\<lparr>oid = 0, innerHTML = ''a'', ovalue = ''x''\<rparr>], next_node = 1, pushed = [0]\<rparr>"
  by (simp add: one_option_def run_options_def new_select_def select_option_def
      option_scan.simps escape_amp_plain Let_def)

text \<open>
  Claim C2. \<open>option(name, value)\<close> scans the options by label, as the host reads it back,
  and acts on the first one whose label is \<open>name\<close>. If there is one and \<open>value\<close> is
  \<^verbatim>\<open>false\<close>, that option is removed. If there is one and \<open>value\<close> is anything else, its
  value becomes \<open>value\<close> (as a string), and its label too exactly when label and value
  were equal before. If there is none, a new option with a new node is appended, labelled
  \<open>name\<close>, whose value is \<open>value\<close> when that argument is supplied and \<open>name\<close> otherwise;
  when the host reads the label \<open>name\<close> back unchanged, the next scan for \<open>name\<close> finds
  this option. The node of a removed option belongs to no option after any later \<open>option\<close>
  calls.
\<close>

theorem select_option_first_match:
  "(option_scan 0 name (options s) = Some i) =
     (i < length (options s) \<and> innerHTML (options s ! i) = name
      \<and> (\<forall>j<i. innerHTML (options s ! j) \<noteq> name))
   \<and> (option_scan 0 name (options s) = None) = (name \<notin> innerHTML ` set (options s))
   \<and> (option_scan 0 name (options s) = Some i \<and> v = Some (JBool False) \<longrightarrow>
        options (select_option ser name v s) = take i (options s) @ drop (Suc i) (options s))
   \<and> (option_scan 0 name (options s) = Some i \<and> v \<noteq> Some (JBool False) \<longrightarrow>
        options (select_option ser name v s) =
          (options s)[i := (options s ! i)\<lparr>
             innerHTML := (if innerHTML (options s ! i) = ovalue (options s ! i)
                           then ser (to_string (arg_val v)) else innerHTML (options s ! i)),
             ovalue := to_string (arg_val v)\<rparr>])
   \<and> (option_scan 0 name (options s) = None \<longrightarrow>
        options (select_option ser name v s) =
          options s @ [\<lparr>oid = next_node s, innerHTML = ser name,
                        ovalue = (case v of None \<Rightarrow> name | Some x \<Rightarrow> to_string x)\<rparr>])
   \<and> (option_scan 0 name (options s) = None \<and> ser name = name \<longrightarrow>
        option_scan 0 name (options (select_option ser name v s)) = Some (length (options s)))
   \<and> (select_wf s \<and> option_scan 0 name (options s) = Some i \<longrightarrow>
        oid (options s ! i) \<notin>
          oid ` set (options (run_options ser calls (select_option ser name (Some (JBool False)) s))))"
  using option_scan_first [of name "options s" i] option_scan_absent [of name "options s"]
    select_option_remove [where name = name and s = s and i = i and ser = ser]
    select_option_update [where name = name and s = s and i = i and v = v and ser = ser]
    select_option_append [where name = name and s = s and v = v and ser = ser]
    select_option_found_again [where name = name and s = s and v = v and ser = ser]
    removed_not_resurrected [where s = s and name = name and i = i and calls = calls and ser = ser]
  by blast

text \<open>
  The theorem on the control that holds the one option \<open>a\<close> with the value \<open>x\<close>: removal,
  update, appending \<open>b\<close> with no value given and finding it again, and \<open>option('a', 'y')\<close>
  after the removal.
\<close>

theorem select_option_first_match_witness:
  "select_wf one_option
   \<and> option_scan 0 ''a'' (options one_option) = Some 0
   \<and> option_scan 0 ''b'' (options one_option) = None
   \<and> escape_amp ''b'' = ''b''
   \<and> options (select_option escape_amp ''a'' (Some (JBool False)) one_option) = []
   \<and> options (select_option escape_amp ''a'' (Some (JStr ''z'')) one_option)
        = [\<lparr>oid = 0, innerHTML = ''a'', ovalue = ''z''\<rparr>]
   \<and> options (select_option escape_amp ''b'' None one_option)
        = [\<lparr>oid = 0, innerHTML = ''a'', ovalue = ''x''\<rparr>, \<lparr>oid = 1, innerHTML = ''b'', ovalue = ''b''\<rparr>]
   \<and> option_scan 0 ''b'' (options (select_option escape_amp ''b'' None one_option)) = Some 1
   \<and> 0 \<notin> oid ` set (options (run_options escape_amp [(''a'', Some (JStr ''y''))]
            (select_option escape_amp ''a'' (Some (JBool False)) one_option)))"
proof -
  have wf: "select_wf one_option"
    by (simp add: one_option_eq select_wf_def)
  have a: "option_scan 0 ''a'' (options one_option) = Some 0"
    and b: "option_scan 0 ''b'' (options one_option) = None"
    by (simp_all add: one_option_eq option_scan.simps)
  have e: "escape_amp ''b'' = ''b''"
    by (simp add: escape_amp_plain)
  from wf a b e
    select_option_first_match [where name = "''a''" and s = one_option and i = 0
      and v = "Some (JBool False)" and calls = "[(''a'', Some (JStr ''y''))]" and ser = escape_amp]
    select_option_first_match [where name = "''a''" and s = one_option and i = 0
      and v = "Some (JStr ''z'')" and ser = escape_amp]
    select_option_first_match [where name = "''b''" and s = one_option and i = 0
      and v = None and ser = escape_amp]
  show ?thesis
    by (simp add: one_option_eq arg_val_def option_scan.simps)
qed

text \<open>
  The sequence of the specification: \<open>option('a', 'x')\<close>, \<open>option('a', false)\<close>,
  \<open>option('a', 'y')\<close> leaves one option, on a new node.
\<close>

lemma option_example:
  "options (run_options escape_amp
      [(''a'', Some (JStr ''x'')), (''a'', Some (JBool False)), (''a'', Some (JStr ''y''))] new_select)
   = [\<lparr>oid = 1, innerHTML = ''a'', ovalue = ''y''\<rparr>]"
  by (simp add: run_options_def new_select_def select_option_def option_scan.simps
      arg_val_def splice1_def escape_amp_plain Let_def)

text \<open>
  A name that the host does not read back unchanged is never found: \<open>option('a&b')\<close> twice
  appends two options, and \<open>option('a&b', false)\<close> appends a third instead of removing one.
\<close>

lemma option_ampersand_example:
  "options (run_options escape_amp [(''a&b'', None), (''a&b'', None), (''a&b'', Some (JBool False))]
      new_select)
   = [\<lparr>oid = 0, innerHTML = ''a&amp;b'', ovalue = ''a&b''\<rparr>,
      \<lparr>oid = 1, innerHTML = ''a&amp;b'', ovalue = ''a&b''\<rparr>,
      \<lparr>oid = 2, innerHTML = ''a&amp;b'', ovalue = ''false''\<rparr>]"
  by (simp add: run_options_def new_select_def select_option_def option_scan.simps
      arg_val_def escape_amp_plain Let_def)

lemma to_string_examples:
  "to_string (JNum (Abs_safe_int 120)) = ''120'' \<and> to_string (JNum (Abs_safe_int (- 7))) = ''-7''
   \<and> to_string (JBool False) = ''false'' \<and> to_string JUndefined = ''undefined''"
  by (simp add: Abs_safe_int_inverse digits.simps)

section \<open>Properties of the radio group\<close>

lemma nvalue_set_checked [simp]: "nvalue (set_checked b c) = nvalue c"
  by (cases c) simp

lemma tagName_set_checked [simp]: "tagName (set_checked b c) = tagName c"
  by (cases c) simp

lemma ntype_set_checked [simp]: "ntype (set_checked b c) = ntype c"
  by (cases c) simp

lemma nname_set_checked [simp]: "nname (set_checked b c) = nname c"
  by (cases c) simp

lemma children_set_checked [simp]: "children (set_checked b c) = children c"
  by (cases c) simp

lemma checked_set_checked [simp]: "checked (set_checked b c) = b"
  by (cases c) simp

lemma set_checked_twice [simp]: "set_checked b (set_checked b' c) = set_checked b c"
  by (cases c) simp

lemma children_set_children [simp]: "children (set_children ch e) = ch"
  by (cases e) simp

lemma nvalue_uncheck_group [simp]: "nvalue (uncheck_group g c) = nvalue c"
  by (cases c) simp

lemma tagName_uncheck_group [simp]: "tagName (uncheck_group g c) = tagName c"
  by (cases c) simp

lemma uncheck_group_leaf:
  "children c = [] \<Longrightarrow>
     uncheck_group g c =
       (if tagName c = ''INPUT'' \<and> ntype c = ''radio'' \<and> nname c = g then set_checked False c else c)"
  by (cases c) simp

lemma length_host_check [simp]: "length (host_check j ch) = length ch"
  by (simp add: host_check_def Let_def)

lemma nvalue_host_check: "k < length ch \<Longrightarrow> nvalue (host_check j ch ! k) = nvalue (ch ! k)"
  by (cases "k = j") (simp_all add: host_check_def Let_def)

lemma tagName_host_check: "k < length ch \<Longrightarrow> tagName (host_check j ch ! k) = tagName (ch ! k)"
  by (cases "k = j") (simp_all add: host_check_def Let_def)

lemma radio_check_loop_foldl:
  "\<forall>j \<in> set ps. j < length ch \<Longrightarrow>
     radio_check_loop i v ps ch =
       foldl (\<lambda>c j. host_check j c) ch (filter (\<lambda>j. strict_eq (nvalue (ch ! j)) v) (drop i ps))"
proof (induction i v ps ch rule: radio_check_loop.induct)
  case (1 i v ps ch)
  show ?case
  proof (cases "i < length ps")
    case False
    then show ?thesis by (subst radio_check_loop.simps) simp
  next
    case True
    let ?j = "ps ! i"
    from True have d: "drop i ps = ?j # drop (Suc i) ps"
      by (simp add: Cons_nth_drop_Suc)
    show ?thesis
    proof (cases "strict_eq (nvalue (ch ! ?j)) v")
      case hit: True
      let ?ch' = "host_check ?j ch"
      from "1.prems" have p': "\<forall>j \<in> set ps. j < length ?ch'" by simp
      have same: "filter (\<lambda>j. strict_eq (nvalue (?ch' ! j)) v) (drop (Suc i) ps)
                = filter (\<lambda>j. strict_eq (nvalue (ch ! j)) v) (drop (Suc i) ps)"
      proof (rule filter_cong [OF refl])
        fix j assume "j \<in> set (drop (Suc i) ps)"
        then have "j \<in> set ps" by (rule in_set_dropD)
        with "1.prems" have "j < length ch" by simp
        then show "strict_eq (nvalue (?ch' ! j)) v = strict_eq (nvalue (ch ! j)) v"
          by (simp add: nvalue_host_check)
      qed
      have "radio_check_loop i v ps ch = radio_check_loop (Suc i) v ps ?ch'"
        using True hit by (subst radio_check_loop.simps) simp
      also from "1.IH"(1) [OF True hit p']
      have "\<dots> = foldl (\<lambda>c j. host_check j c) ?ch'
          (filter (\<lambda>j. strict_eq (nvalue (?ch' ! j)) v) (drop (Suc i) ps))" .
      also have "\<dots> = foldl (\<lambda>c j. host_check j c) ch
          (filter (\<lambda>j. strict_eq (nvalue (ch ! j)) v) (drop i ps))"
        using hit by (simp only: same d) simp
      finally show ?thesis .
    next
      case miss: False
      have "radio_check_loop i v ps ch = radio_check_loop (Suc i) v ps ch"
        using True miss by (subst radio_check_loop.simps) simp
      also from "1.IH"(2) [OF True miss "1.prems"]
      have "\<dots> = foldl (\<lambda>c j. host_check j c) ch
          (filter (\<lambda>j. strict_eq (nvalue (ch ! j)) v) (drop (Suc i) ps))" .
      also have "\<dots> = foldl (\<lambda>c j. host_check j c) ch
          (filter (\<lambda>j. strict_eq (nvalue (ch ! j)) v) (drop i ps))"
        using miss by (simp only: d) simp
      finally show ?thesis .
    qed
  qed
qed

lemma radio_check_loop_in_order:
  "radio_check_loop 0 v (getInputChildrenArray e) (children e) = check_in_order v (children e)"
proof -
  have b: "\<forall>j \<in> set (getInputChildrenArray e). j < length (children e)"
    by (simp add: getInputChildrenArray_def)
  from radio_check_loop_foldl [OF b, of 0 v] show ?thesis
    by (simp add: check_in_order_def matching_inputs_def getInputChildrenArray_def conj_commute)
qed

lemma radio_setter:
  "truthy (arg_val a) \<Longrightarrow>
     radio_selected a e = (RetThis, set_children (check_in_order (arg_val a) (children e)) e)
   \<and> radio_value a e = (RetThis, set_children (check_in_order (arg_val a) (children e)) e)"
  by (simp add: radio_selected_def radio_value_def radio_check_loop_in_order Let_def)

lemma radio_find_loop_find:
  "radio_find_loop i ps ch = map_option (\<lambda>j. nvalue (ch ! j)) (find (\<lambda>j. checked (ch ! j)) (drop i ps))"
proof (induction i ps ch rule: radio_find_loop.induct)
  case (1 i ps ch)
  show ?case
  proof (cases "i < length ps")
    case False
    then show ?thesis by (subst radio_find_loop.simps) simp
  next
    case True
    then have d: "drop i ps = ps ! i # drop (Suc i) ps"
      by (simp add: Cons_nth_drop_Suc)
    show ?thesis
    proof (cases "checked (ch ! (ps ! i))")
      case c: True
      with True d show ?thesis by (subst radio_find_loop.simps) simp
    next
      case c: False
      with True have cc: "checked (ch ! (ps ! i)) \<noteq> True" by simp
      from "1.IH" [OF True cc] True c d show ?thesis
        by (subst radio_find_loop.simps) simp
    qed
  qed
qed

lemma find_filter_conj: "find Q (filter P xs) = find (\<lambda>x. P x \<and> Q x) xs"
  by (induction xs) auto

lemma find_map_option: "find R (map f xs) = map_option f (find (\<lambda>x. R (f x)) xs)"
  by (induction xs) auto

lemma find_positions:
  "map_option (\<lambda>j. ch ! j) (find (\<lambda>j. R (ch ! j)) [0..<length ch]) = find R ch"
proof -
  have "find R ch = find R (map (\<lambda>j. ch ! j) [0..<length ch])"
    by (simp add: map_nth)
  also have "\<dots> = map_option (\<lambda>j. ch ! j) (find (\<lambda>j. R (ch ! j)) [0..<length ch])"
    by (rule find_map_option)
  finally show ?thesis by simp
qed

lemma radio_find_loop_first:
  "radio_find_loop 0 (getInputChildrenArray e) (children e) =
     map_option nvalue (first_checked_input (children e))"
proof -
  let ?ch = "children e"
  have "radio_find_loop 0 (getInputChildrenArray e) ?ch =
      map_option (\<lambda>j. nvalue (?ch ! j))
        (find (\<lambda>j. tagName (?ch ! j) = ''INPUT'' \<and> checked (?ch ! j)) [0..<length ?ch])"
    by (simp add: radio_find_loop_find getInputChildrenArray_def find_filter_conj)
  also have "\<dots> = map_option nvalue (map_option (\<lambda>j. ?ch ! j)
        (find (\<lambda>j. tagName (?ch ! j) = ''INPUT'' \<and> checked (?ch ! j)) [0..<length ?ch]))"
    by (simp add: option.map_comp comp_def)
  also have "\<dots> = map_option nvalue (find (\<lambda>c. tagName c = ''INPUT'' \<and> checked c) ?ch)"
    by (simp only: find_positions [of ?ch "\<lambda>c. tagName c = ''INPUT'' \<and> checked c"])
  finally show ?thesis by (simp add: first_checked_input_def)
qed

lemma radio_getter:
  "\<not> truthy (arg_val a) \<Longrightarrow>
     radio_selected a e =
       (case first_checked_input (children e) of
          Some c \<Rightarrow> (RetValue (nvalue c), e) | None \<Rightarrow> (RetUndefined, e))
   \<and> radio_value a e =
       (case first_checked_input (children e) of
          Some c \<Rightarrow> (RetValue (nvalue c), e) | None \<Rightarrow> (RetValue [], e))"
  by (simp add: radio_selected_def radio_value_def radio_find_loop_first Let_def
      split: option.splits)

lemma length_check_only [simp]: "length (check_only l ch) = length ch"
  by (simp add: check_only_def)

lemma nth_check_only:
  "k < length ch \<Longrightarrow>
     check_only l ch ! k = (if tagName (ch ! k) = ''INPUT'' then set_checked (k = l) (ch ! k) else ch ! k)"
  by (simp add: check_only_def)

lemma option_group_nth:
  "option_group g ch \<Longrightarrow> k < length ch \<Longrightarrow>
     children (ch ! k) = [] \<and> (tagName (ch ! k) = ''INPUT'' \<longrightarrow> ntype (ch ! k) = ''radio'' \<and> nname (ch ! k) = g)"
  by (auto simp: option_group_def list_all_length split: if_splits)

lemma host_check_group:
  assumes grp: "option_group g ch" and j: "j < length ch" and inp: "tagName (ch ! j) = ''INPUT''"
  shows "host_check j ch = check_only j ch"
proof (rule nth_equalityI)
  show "length (host_check j ch) = length (check_only j ch)" by simp
next
  fix k assume "k < length (host_check j ch)"
  then have k: "k < length ch" by simp
  from grp have g: "g \<noteq> []" by (simp add: option_group_def)
  from option_group_nth [OF grp j] inp have xj: "ntype (ch ! j) = ''radio''" "nname (ch ! j) = g"
    "children (ch ! j) = []" by simp_all
  from option_group_nth [OF grp k] have xk: "children (ch ! k) = []"
    "tagName (ch ! k) = ''INPUT'' \<longrightarrow> ntype (ch ! k) = ''radio'' \<and> nname (ch ! k) = g" by simp_all
  have hc: "host_check j ch = (map (uncheck_group g) ch)[j := set_checked True (uncheck_group g (ch ! j))]"
    using inp xj g by (simp add: host_check_def Let_def)
  show "host_check j ch ! k = check_only j ch ! k"
  proof (cases "k = j")
    case True
    with k j inp xj hc show ?thesis
      by (simp add: nth_check_only uncheck_group_leaf)
  next
    case False
    with k xk hc show ?thesis
      by (auto simp: nth_check_only uncheck_group_leaf)
  qed
qed

lemma option_group_check_only: "option_group g ch \<Longrightarrow> option_group g (check_only l ch)"
  by (auto simp: option_group_def list_all_length nth_check_only split: if_splits)

lemma tagName_check_only: "k < length ch \<Longrightarrow> tagName (check_only l ch ! k) = tagName (ch ! k)"
  by (simp add: nth_check_only)

lemma check_only_twice: "check_only l (check_only l' ch) = check_only l ch"
  by (rule nth_equalityI) (simp_all add: nth_check_only)

lemma foldl_host_check_group:
  "option_group g ch \<Longrightarrow> \<forall>j \<in> set ms. j < length ch \<and> tagName (ch ! j) = ''INPUT'' \<Longrightarrow> ms \<noteq> [] \<Longrightarrow>
     foldl (\<lambda>c j. host_check j c) ch ms = check_only (last ms) ch"
proof (induction ms arbitrary: ch)
  case Nil
  then show ?case by simp
next
  case (Cons m ms)
  from Cons.prems have m: "m < length ch" "tagName (ch ! m) = ''INPUT''" by simp_all
  have h: "host_check m ch = check_only m ch"
    by (rule host_check_group [OF Cons.prems(1) m])
  show ?case
  proof (cases "ms = []")
    case True
    with h show ?thesis by simp
  next
    case False
    have g': "option_group g (check_only m ch)"
      by (rule option_group_check_only [OF Cons.prems(1)])
    have p': "\<forall>j \<in> set ms. j < length (check_only m ch) \<and> tagName (check_only m ch ! j) = ''INPUT''"
      using Cons.prems(2) by (simp add: tagName_check_only)
    from Cons.IH [OF g' p' False] h False show ?thesis
      by (simp add: check_only_twice)
  qed
qed

lemma matching_inputs_set:
  "j \<in> set (matching_inputs v ch) \<Longrightarrow>
     j < length ch \<and> tagName (ch ! j) = ''INPUT'' \<and> strict_eq (nvalue (ch ! j)) v"
  by (simp add: matching_inputs_def)

lemma check_in_order_group:
  assumes "option_group g ch" and "matching_inputs v ch \<noteq> []"
  shows "check_in_order v ch = check_only (last (matching_inputs v ch)) ch"
  unfolding check_in_order_def
  using matching_inputs_set [of _ v ch]
  by (intro foldl_host_check_group [OF assms(1) _ assms(2)]) blast

lemma first_checked_check_only:
  assumes l: "l < length ch" and inp: "tagName (ch ! l) = ''INPUT''"
  shows "first_checked_input (check_only l ch) = Some (set_checked True (ch ! l))"
proof -
  let ?P = "\<lambda>c. tagName c = ''INPUT'' \<and> checked c"
  have at: "check_only l ch ! l = set_checked True (ch ! l)"
    using l inp by (simp add: nth_check_only)
  have before: "\<forall>k<l. \<not> ?P (check_only l ch ! k)"
    using l by (simp add: nth_check_only)
  have "find ?P (check_only l ch) = Some (set_checked True (ch ! l))"
    unfolding find_Some_iff
    using l inp at before by (intro exI [of _ l]) simp
  then show ?thesis by (simp add: first_checked_input_def)
qed

text \<open>
  \<open>option\<close> keeps a group a group, and the example groups are built by it from the empty
  container that \<open>createRadio\<close> makes.
\<close>

lemma option_group_radio_option:
  "option_group g (children e) \<Longrightarrow> option_group g (children (radio_option g name v e))"
  by (simp add: radio_option_def option_group_def Let_def)

lemma option_group_empty: "g \<noteq> [] \<Longrightarrow> option_group g []"
  by (simp add: option_group_def)

lemma example_groups_built:
  "two_radios = radio_option ''defaultradio0'' ''2'' None
     (radio_option ''defaultradio0'' ''1'' None (Node ''DIV'' [] [] [] False []))"
  "empty_value_radio = radio_option ''defaultradio0'' [] None (Node ''DIV'' [] [] [] False [])"
  "same_value_radios = radio_option ''defaultradio0'' ''b'' (Some (JStr ''x''))
     (radio_option ''defaultradio0'' ''a'' (Some (JStr ''x'')) (Node ''DIV'' [] [] [] False []))"
  by (simp_all add: two_radios_def empty_value_radio_def same_value_radios_def radio_option_def
      arg_val_def Let_def)

text \<open>
  In a group as \<open>option\<close> fills it, \<open>selected(s)\<close> for a string \<open>s\<close> that is the value of
  some input leaves exactly the last such input checked, and \<open>value()\<close> then returns \<open>s\<close>.
\<close>

lemma selected_then_value:
  assumes grp: "option_group g (children e)" and s: "s \<noteq> []"
    and ex: "matching_inputs (JStr s) (children e) \<noteq> []"
  shows "snd (radio_selected (Some (JStr s)) e) =
           set_children (check_only (last (matching_inputs (JStr s) (children e))) (children e)) e"
    and "radio_value None (snd (radio_selected (Some (JStr s)) e)) =
           (RetValue s, snd (radio_selected (Some (JStr s)) e))"
proof -
  let ?ms = "matching_inputs (JStr s) (children e)"
  let ?l = "last ?ms"
  from s have t: "truthy (arg_val (Some (JStr s)))" by (simp add: arg_val_def)
  from radio_setter [OF t, of e] check_in_order_group [OF grp ex]
  show post: "snd (radio_selected (Some (JStr s)) e) = set_children (check_only ?l (children e)) e"
    by (simp add: arg_val_def)
  from ex have "?l \<in> set ?ms" by simp
  from matching_inputs_set [OF this]
  have l: "?l < length (children e)" and inp: "tagName (children e ! ?l) = ''INPUT''"
    and val: "nvalue (children e ! ?l) = s"
    by (simp_all add: strict_eq_def)
  have f: "\<not> truthy (arg_val None)" by (simp add: arg_val_def)
  from radio_getter [OF f, of "snd (radio_selected (Some (JStr s)) e)"]
    first_checked_check_only [OF l inp] val
  show "radio_value None (snd (radio_selected (Some (JStr s)) e)) =
           (RetValue s, snd (radio_selected (Some (JStr s)) e))"
    by (simp add: post)
qed

lemma set_children_same [simp]: "set_children (children e) e = e"
  by (cases e) simp

lemma radio_setter_no_match:
  "truthy (arg_val a) \<Longrightarrow> matching_inputs (arg_val a) (children e) = [] \<Longrightarrow>
     radio_selected a e = (RetThis, e) \<and> radio_value a e = (RetThis, e)"
  using radio_setter [of a e] by (simp add: check_in_order_def)

text \<open>
  Claim C5, as the code has it. \<open>selected(v)\<close> and \<open>value(v)\<close> with a truthy argument
  assign \<^verbatim>\<open>checked = true\<close>, in document order, to every input child whose value is
  strictly equal to \<open>v\<close>, and return the handle; nothing changes when no input child has
  that value. The host keeps at most one radio button of a name checked, so in a group as
  \<open>option\<close> fills it exactly the last input with the value \<open>v\<close> ends up checked, every
  other input unchecked, and \<open>value()\<close> then returns \<open>v\<close>. With no argument, or a falsy
  one, both methods change nothing and return the value of the first child that is an input
  and is checked (a label is never read); when there is none, \<open>value\<close> returns the empty
  string and \<open>selected\<close> returns \<^verbatim>\<open>undefined\<close>.
\<close>

theorem radio_selected_value:
  "(truthy (arg_val a) \<longrightarrow>
      radio_selected a e = (RetThis, set_children (check_in_order (arg_val a) (children e)) e)
    \<and> radio_value a e = (RetThis, set_children (check_in_order (arg_val a) (children e)) e))
   \<and> (truthy (arg_val a) \<and> matching_inputs (arg_val a) (children e) = [] \<longrightarrow>
      radio_selected a e = (RetThis, e) \<and> radio_value a e = (RetThis, e))
   \<and> (option_group g (children e) \<and> s \<noteq> [] \<and> matching_inputs (JStr s) (children e) \<noteq> [] \<longrightarrow>
      snd (radio_selected (Some (JStr s)) e) =
        set_children (check_only (last (matching_inputs (JStr s) (children e))) (children e)) e
    \<and> radio_value None (snd (radio_selected (Some (JStr s)) e)) =
        (RetValue s, snd (radio_selected (Some (JStr s)) e)))
   \<and> (\<not> truthy (arg_val a) \<longrightarrow>
      radio_selected a e =
        (case first_checked_input (children e) of
           Some c \<Rightarrow> (RetValue (nvalue c), e) | None \<Rightarrow> (RetUndefined, e))
    \<and> radio_value a e =
        (case first_checked_input (children e) of
           Some c \<Rightarrow> (RetValue (nvalue c), e) | None \<Rightarrow> (RetValue [], e)))
   \<and> \<not> truthy (arg_val None)"
  using radio_setter [of a e] radio_setter_no_match [of a e] radio_getter [of a e]
    selected_then_value [of g e s]
  by (simp add: arg_val_def)

lemma two_radios_group:
  "option_group ''defaultradio0'' (children two_radios)
   \<and> matching_inputs (JStr ''1'') (children two_radios) = [0]
   \<and> matching_inputs (JStr ''2'') (children two_radios) = [2]"
  by (simp add: two_radios_def option_group_def matching_inputs_def strict_eq_def)

lemma two_radios_first:
  "snd (radio_selected (Some (JStr ''1'')) two_radios) =
     Node ''DIV'' [] [] [] False
     [Node ''INPUT'' ''radio'' ''defaultradio0'' ''1'' True [], Node ''LABEL'' [] [] [] False [],
      Node ''INPUT'' ''radio'' ''defaultradio0'' ''2'' False [], Node ''LABEL'' [] [] [] False []]"
  using selected_then_value(1) [of "''defaultradio0''" two_radios "''1''"] two_radios_group
  by (simp add: two_radios_def check_only_def)

text \<open>
  The theorem on the group with the values 1 and 2: after \<open>selected('1')\<close>,
  \<open>selected('2')\<close> leaves the second input checked and the first unchecked, and \<open>value()\<close>
  is 2; \<open>selected('3')\<close> changes nothing; on the new group \<open>value()\<close> is the empty string
  and \<open>selected()\<close> is \<^verbatim>\<open>undefined\<close>.
\<close>

theorem radio_selected_value_witness:
  "truthy (arg_val (Some (JStr ''2''))) \<and> \<not> truthy (arg_val None)
   \<and> option_group ''defaultradio0'' (children (snd (radio_selected (Some (JStr ''1'')) two_radios)))
   \<and> matching_inputs (JStr ''2'') (children (snd (radio_selected (Some (JStr ''1'')) two_radios))) = [2]
   \<and> matching_inputs (JStr ''3'') (children two_radios) = []
   \<and> radio_selected (Some (JStr ''3'')) two_radios = (RetThis, two_radios)
   \<and> radio_selected (Some (JStr ''2'')) (snd (radio_selected (Some (JStr ''1'')) two_radios))
        = (RetThis, two_radios_second)
   \<and> radio_value None two_radios_second = (RetValue ''2'', two_radios_second)
   \<and> radio_value None two_radios = (RetValue [], two_radios)
   \<and> radio_selected None two_radios = (RetUndefined, two_radios)"
proof -
  let ?e1 = "snd (radio_selected (Some (JStr ''1'')) two_radios)"
  have t: "truthy (arg_val (Some (JStr ''2'')))" and t3: "truthy (arg_val (Some (JStr ''3'')))"
    and f: "\<not> truthy (arg_val None)"
    by (simp_all add: arg_val_def)
  have g: "option_group ''defaultradio0'' (children ?e1)"
    and m: "matching_inputs (JStr ''2'') (children ?e1) = [2]"
    by (simp_all add: two_radios_first option_group_def matching_inputs_def strict_eq_def)
  have m3: "matching_inputs (JStr ''3'') (children two_radios) = []"
    by (simp add: two_radios_def matching_inputs_def strict_eq_def)
  have c: "set_children (check_only 2 (children ?e1)) ?e1 = two_radios_second"
    by (simp add: two_radios_first two_radios_second_def check_only_def)
  have fc: "first_checked_input (children two_radios) = None"
    by (simp add: two_radios_def first_checked_input_def)
  note T2 = radio_selected_value [of "Some (JStr ''2'')" ?e1 "''defaultradio0''" "''2''"]
  note T3 = radio_selected_value [of "Some (JStr ''3'')" two_radios]
  note T0 = radio_selected_value [of None two_radios]
  have two: "(''2'' :: string) \<noteq> []" by simp
  from m have ne: "matching_inputs (JStr ''2'') (children ?e1) \<noteq> []" by simp
  from T2 g two ne have grp: "snd (radio_selected (Some (JStr ''2'')) ?e1) =
        set_children (check_only (last (matching_inputs (JStr ''2'') (children ?e1))) (children ?e1)) ?e1
    \<and> radio_value None (snd (radio_selected (Some (JStr ''2'')) ?e1)) =
        (RetValue ''2'', snd (radio_selected (Some (JStr ''2'')) ?e1))"
    by blast
  then have "snd (radio_selected (Some (JStr ''2'')) ?e1) =
      set_children (check_only 2 (children ?e1)) ?e1"
    by (simp add: m)
  with c have post: "snd (radio_selected (Some (JStr ''2'')) ?e1) = two_radios_second"
    by simp
  from T2 t have "radio_selected (Some (JStr ''2'')) ?e1 =
      (RetThis, set_children (check_in_order (arg_val (Some (JStr ''2''))) (children ?e1)) ?e1)"
    by blast
  then have "fst (radio_selected (Some (JStr ''2'')) ?e1) = RetThis"
    by simp
  with post have r2: "radio_selected (Some (JStr ''2'')) ?e1 = (RetThis, two_radios_second)"
    by (simp add: prod_eq_iff)
  from grp have "radio_value None (snd (radio_selected (Some (JStr ''2'')) ?e1)) =
      (RetValue ''2'', snd (radio_selected (Some (JStr ''2'')) ?e1))"
    by blast
  then have v2: "radio_value None two_radios_second = (RetValue ''2'', two_radios_second)"
    by (simp only: post)
  have m3': "matching_inputs (arg_val (Some (JStr ''3''))) (children two_radios) = []"
    using m3 by (simp add: arg_val_def)
  from T3 t3 m3' have r3: "radio_selected (Some (JStr ''3'')) two_radios = (RetThis, two_radios)"
    by blast
  from T0 f have "radio_selected None two_radios =
        (case first_checked_input (children two_radios) of
           Some c \<Rightarrow> (RetValue (nvalue c), two_radios) | None \<Rightarrow> (RetUndefined, two_radios))
    \<and> radio_value None two_radios =
        (case first_checked_input (children two_radios) of
           Some c \<Rightarrow> (RetValue (nvalue c), two_radios) | None \<Rightarrow> (RetValue [], two_radios))"
    by blast
  with fc have r0: "radio_value None two_radios = (RetValue [], two_radios)
      \<and> radio_selected None two_radios = (RetUndefined, two_radios)"
    by simp
  from t f g m m3 r3 r2 v2 r0 show ?thesis
    by simp
qed

text \<open>
  Claim C5 as stated fails in two ways. For an argument that is falsy: on the group whose
  input has the empty string as its value, \<open>selected('')\<close> and \<open>value('')\<close> take the getter
  branch, so the input is not checked and the handle is not returned. For two inputs of
  one value: on the group with two inputs of the value \<open>x\<close>, after \<open>selected('x')\<close> the
  first of them is not checked, because checking the second unchecks it.
\<close>

theorem radio_selected_not_every_match:
  "tagName (hd (children empty_value_radio)) = ''INPUT''
   \<and> strict_eq (nvalue (hd (children empty_value_radio))) (JStr [])
   \<and> radio_selected (Some (JStr [])) empty_value_radio = (RetUndefined, empty_value_radio)
   \<and> radio_value (Some (JStr [])) empty_value_radio = (RetValue [], empty_value_radio)
   \<and> checked (hd (children empty_value_radio)) = False
   \<and> matching_inputs (JStr ''x'') (children same_value_radios) = [0, 2]
   \<and> radio_selected (Some (JStr ''x'')) same_value_radios =
       (RetThis, Node ''DIV'' [] [] [] False
          [Node ''INPUT'' ''radio'' ''defaultradio0'' ''x'' False [], Node ''LABEL'' [] [] [] False [],
           Node ''INPUT'' ''radio'' ''defaultradio0'' ''x'' True [], Node ''LABEL'' [] [] [] False []])"
proof -
  have "\<not> truthy (arg_val (Some (JStr [])))"
    by (simp add: arg_val_def)
  from radio_getter [OF this, of empty_value_radio]
  have a: "radio_selected (Some (JStr [])) empty_value_radio = (RetUndefined, empty_value_radio)
    \<and> radio_value (Some (JStr [])) empty_value_radio = (RetValue [], empty_value_radio)"
    by (simp add: empty_value_radio_def first_checked_input_def)
  have m: "matching_inputs (JStr ''x'') (children same_value_radios) = [0, 2]"
    by (simp add: same_value_radios_def matching_inputs_def strict_eq_def)
  have "truthy (arg_val (Some (JStr ''x'')))"
    by (simp add: arg_val_def)
  from radio_setter [OF this, of same_value_radios] m
  have b: "radio_selected (Some (JStr ''x'')) same_value_radios =
       (RetThis, Node ''DIV'' [] [] [] False
          [Node ''INPUT'' ''radio'' ''defaultradio0'' ''x'' False [], Node ''LABEL'' [] [] [] False [],
           Node ''INPUT'' ''radio'' ''defaultradio0'' ''x'' True [], Node ''LABEL'' [] [] [] False []])"
    by (simp add: arg_val_def check_in_order_def same_value_radios_def host_check_def Let_def)
  from a m b show ?thesis
    by (simp add: empty_value_radio_def strict_eq_def)
qed

section \<open>Properties of removal\<close>

lemma indexOf_None: "(indexOf x xs = None) = (x \<notin> set xs)"
  by (induction xs) auto

lemma indexOf_Some:
  "indexOf x xs = Some i \<Longrightarrow> i < length xs \<and> xs ! i = x \<and> x \<notin> set (take i xs)"
proof (induction xs arbitrary: i)
  case Nil
  then show ?case by simp
next
  case (Cons y ys)
  show ?case
  proof (cases "y = x")
    case True
    with Cons.prems show ?thesis by simp
  next
    case False
    with Cons.prems obtain k where k: "indexOf x ys = Some k" and i: "i = Suc k"
      by auto
    from Cons.IH [OF k] False i show ?thesis by simp
  qed
qed

lemma indexOf_splice1:
  assumes "distinct xs" and "indexOf x xs = Some i"
  shows "indexOf x (splice1 i xs) = None"
proof -
  from indexOf_Some [OF assms(2)] have lt: "i < length xs" and at: "xs ! i = x" by simp_all
  from lt have "xs = take i xs @ x # drop (Suc i) xs"
    using at by (metis id_take_nth_drop)
  with assms(1) have "distinct (take i xs @ x # drop (Suc i) xs)" by simp
  then have "x \<notin> set (take i xs) \<and> x \<notin> set (drop (Suc i) xs)" by auto
  then show ?thesis by (simp add: indexOf_None splice1_def)
qed

lemma deregister_events_filter: "deregister_events evs ls = filter (\<lambda>l. l \<notin> set evs) ls"
  unfolding deregister_events_def
proof (induction evs arbitrary: ls)
  case Nil
  then show ?case by simp
next
  case (Cons e evs)
  have "removeAll e ls = filter (\<lambda>l. l \<noteq> e) ls"
    by (induction ls) auto
  with Cons.IH [of "removeAll e ls"] show ?case
    by (simp add: conj_commute)
qed

lemma deregister_events_twice:
  "deregister_events evs (deregister_events evs ls) = deregister_events evs ls"
  by (simp add: deregister_events_filter)

lemma remove_throws:
  "media (handles s hid) \<Longrightarrow> srcObject (helt (handles s hid)) = None \<Longrightarrow> remove hid s = Inl TypeError"
  by (simp add: remove_def stop_tracks_def Let_def)

lemma remove_effects:
  assumes "remove hid s = Inr s1"
  shows "\<not> attached (helt (handles s1 hid))"
    and "set (listeners (helt (handles s1 hid))) \<inter> set (events (handles s1 hid)) = {}"
    and "media (handles s hid) \<Longrightarrow> \<exists>ts. srcObject (helt (handles s1 hid)) = Some ts \<and> True \<notin> set ts"
    and "distinct (elements s) \<Longrightarrow> Handle hid \<notin> set (elements s1)"
    and "indexOf (Handle hid) (elements s) = Some i \<Longrightarrow> elements s1 = splice1 i (elements s)"
    and "indexOf (Handle hid) (elements s) = None \<Longrightarrow> elements s1 = elements s"
    and "a \<noteq> hid \<Longrightarrow> handles s1 a = handles s a"
proof -
  show "\<not> attached (helt (handles s1 hid))"
    using assms
    by (auto simp: remove_def stop_tracks_def Let_def split: if_splits option.splits)
  show "set (listeners (helt (handles s1 hid))) \<inter> set (events (handles s1 hid)) = {}"
    using assms
    by (auto simp: remove_def stop_tracks_def Let_def deregister_events_filter
        split: if_splits option.splits)
  show "media (handles s hid) \<Longrightarrow> \<exists>ts. srcObject (helt (handles s1 hid)) = Some ts \<and> True \<notin> set ts"
    using assms
    by (auto simp: remove_def stop_tracks_def Let_def split: if_splits option.splits)
  show "indexOf (Handle hid) (elements s) = Some i \<Longrightarrow> elements s1 = splice1 i (elements s)"
    using assms
    by (auto simp: remove_def stop_tracks_def Let_def split: if_splits option.splits)
  show n: "indexOf (Handle hid) (elements s) = None \<Longrightarrow> elements s1 = elements s"
    using assms
    by (auto simp: remove_def stop_tracks_def Let_def split: if_splits option.splits)
  show "a \<noteq> hid \<Longrightarrow> handles s1 a = handles s a"
    using assms
    by (auto simp: remove_def stop_tracks_def Let_def split: if_splits option.splits)
  show "distinct (elements s) \<Longrightarrow> Handle hid \<notin> set (elements s1)"
  proof (cases "indexOf (Handle hid) (elements s)")
    case None
    with n have "elements s1 = elements s" by simp
    with None show ?thesis by (simp add: indexOf_None)
  next
    case (Some i)
    assume d: "distinct (elements s)"
    from assms Some have "elements s1 = splice1 i (elements s)"
      by (auto simp: remove_def stop_tracks_def Let_def split: if_splits option.splits)
    with indexOf_splice1 [OF d Some] show ?thesis by (simp add: indexOf_None)
  qed
qed

text \<open>
  Where the first call returns, \<open>remove\<close> is idempotent: on a registry that lists no
  handle twice, a second call on the same handle returns and changes nothing. The first
  call has then stopped every track, taken the handle out of the registry, removed the
  listeners of its table from the node and detached the node (\<open>remove_effects\<close>).
\<close>

lemma remove_idempotent:
  assumes d: "distinct (elements s)" and r: "remove hid s = Inr s1"
  shows "remove hid s1 = Inr s1"
proof -
  from remove_effects(4) [OF r d] have ix: "indexOf (Handle hid) (elements s1) = None"
    by (simp add: indexOf_None)
  let ?h = "handles s1 hid"
  from remove_effects(1) [OF r] have na: "\<not> attached (helt ?h)" .
  have ls: "deregister_events (events ?h) (listeners (helt ?h)) = listeners (helt ?h)"
    using r
    by (auto simp: remove_def stop_tracks_def Let_def deregister_events_twice
        split: if_splits option.splits)
  have st: "media ?h \<Longrightarrow> stop_tracks ?h = Inr ?h"
    using r
    by (auto simp: remove_def stop_tracks_def Let_def split: if_splits option.splits)
  show ?thesis
  proof (cases "media ?h")
    case True
    with st ix na ls show ?thesis
      by (simp add: remove_def Let_def)
  next
    case False
    with ix na ls show ?thesis
      by (simp add: remove_def Let_def)
  qed
qed

text \<open>
  Claim C8 on a video made by \<^verbatim>\<open>createVideo\<close>: the handle is a media handle and its
  node has no stream, so \<^verbatim>\<open>this.elt.srcObject.getTracks()\<close> raises a TypeError. The
  first call throws before the handle is taken out of the registry or its node detached,
  and so does every later call.
\<close>

theorem remove_url_video_throws:
  "media (handles video_page 0) \<and> srcObject (helt (handles video_page 0)) = None
   \<and> elements video_page = [Handle 0]
   \<and> remove 0 video_page = Inl TypeError"
  by (simp add: remove_def video_page_def url_video_def stop_tracks_def Let_def)

text \<open>
  Claim C9 on the page of the documentation's example, a canvas, a div and a paragraph:
  removing the div at index 1 shifts the paragraph to index 1, the index moves on to 2,
  which is the length by then, and the loop ends. The paragraph, which is not a canvas,
  stays registered and attached.
\<close>

theorem removeElements_skips_next:
  "\<not> canvas (helt (handles doc_page 2))
   \<and> removeElements doc_page =
       Inr (doc_page\<lparr>handles := (handles doc_page)
              (1 := plain_div\<lparr>helt := (helt plain_div)\<lparr>listeners := [], attached := False\<rparr>\<rparr>),
            elements := [Handle 0, Handle 2]\<rparr>)"
  by (simp add: removeElements_def removeElements_loop.simps remove_def doc_page_def plain_div_def
      main_canvas_def deregister_events_def splice1_def Let_def)

end
